theory Spec2Isabelle
  imports Complex_Main "HOL-Library.Word"
begin

section \<open>Shared constants and types (simulation\_types.h)\<close>

definition PARKING_CAPACITY :: nat where
  "PARKING_CAPACITY = 10"

definition PARKING_QUEUE_SIZE :: nat where
  "PARKING_QUEUE_SIZE = 5"

definition MSG_MAGIC :: "32 word" where
  "MSG_MAGIC = 0xCAFEBABE"

definition CMD_MAGIC :: "32 word" where
  "CMD_MAGIC = 0xDEADBEEF"

datatype VehicleType = AMBULANCE | FIRETRUCK | BUS | CAR | BIKE | TRACTOR

datatype TrafficLightState = RED | GREEN

datatype ScenarioCommand = NONE | GREEN_WAVE | PARKING_FULL | GRIDLOCK

section \<open>Counting semaphores\<close>

text \<open>
  A POSIX counting semaphore is its value. \<open>sem_trywait\<close> fails (\<open>None\<close>) on a zero
  value instead of blocking; \<open>sem_wait\<close> on a zero value suspends the caller, which the
  model reports as \<open>None\<close>: the call has not returned and nothing has changed.
\<close>

definition sem_trywait :: "nat \<Rightarrow> nat option" where
  "sem_trywait s = (if s = 0 then None else Some (s - 1))"

definition sem_wait :: "nat \<Rightarrow> nat option" where
  "sem_wait s = (if s = 0 then None else Some (s - 1))"

definition sem_post :: "nat \<Rightarrow> nat" where
  "sem_post s = Suc s"

section \<open>ParkingLot (parking.h, parking.cpp)\<close>

text \<open>
  The two semaphores are their values, the two \<open>bool\<close> arrays are lists (of length
  \<open>PARKING_CAPACITY\<close> and \<open>PARKING_QUEUE_SIZE\<close> in every constructed lot), the two
  \<open>int\<close> counters are integers (they change by one per call and stay far from the
  limits of \<open>int\<close>). The mutex is not a field: each region the code runs
  between \<open>pthread_mutex_lock\<close> and \<open>pthread_mutex_unlock\<close> is one function of the
  model.
\<close>

record ParkingLot =
  spots :: nat
  queue :: nat
  occupiedSpots :: int
  waitingCount :: int
  spotOccupied :: "bool list"
  queueSlotOccupied :: "bool list"

definition ParkingLot_init :: ParkingLot where
  "ParkingLot_init =
     \<lparr> spots = PARKING_CAPACITY, queue = PARKING_QUEUE_SIZE,
       occupiedSpots = 0, waitingCount = 0,
       spotOccupied = replicate PARKING_CAPACITY False,
       queueSlotOccupied = replicate PARKING_QUEUE_SIZE False \<rparr>"

text \<open>
  The first-fit scan \<open>for (int i = 0; i < n; i++) if (!arr[i]) { ...; break; }\<close>, started
  at index \<open>i\<close>: the index at which the loop breaks, or \<open>None\<close> when it runs to \<open>n\<close>.
\<close>

function first_free :: "nat \<Rightarrow> nat \<Rightarrow> bool list \<Rightarrow> nat option" where
  "first_free i n arr =
     (if i < n then (if \<not> arr ! i then Some i else first_free (Suc i) n arr) else None)"
  by pat_completeness auto
termination
  by (relation "measure (\<lambda>(i, n, arr). n - i)") auto

declare first_free.simps [simp del]

text \<open>The critical section of \<open>enterQueue\<close> (between lock and unlock).\<close>

definition enterQueue_locked :: "ParkingLot \<Rightarrow> int \<times> ParkingLot" where
  "enterQueue_locked L =
     (let L1 = L\<lparr>waitingCount := waitingCount L + 1\<rparr>
      in case first_free 0 PARKING_QUEUE_SIZE (queueSlotOccupied L1) of
           None \<Rightarrow> (-1, L1)
         | Some i \<Rightarrow> (int i, L1\<lparr>queueSlotOccupied := (queueSlotOccupied L1)[i := True]\<rparr>))"

definition enterQueue :: "ParkingLot \<Rightarrow> int \<times> ParkingLot" where
  "enterQueue L =
     (case sem_trywait (queue L) of
        None \<Rightarrow> (-1, L)
      | Some q \<Rightarrow> enterQueue_locked (L\<lparr>queue := q\<rparr>))"

text \<open>
  \<open>waitForSpot\<close> in its two parts: the semaphore operations before the lock
  (\<open>sem_wait(&spots); sem_post(&queue)\<close>) and the critical section.
\<close>

definition waitForSpot_sems :: "ParkingLot \<Rightarrow> ParkingLot option" where
  "waitForSpot_sems L =
     (case sem_wait (spots L) of
        None \<Rightarrow> None
      | Some s \<Rightarrow> Some (L\<lparr>spots := s, queue := sem_post (queue L)\<rparr>))"

definition waitForSpot_locked :: "int \<Rightarrow> ParkingLot \<Rightarrow> int \<times> ParkingLot" where
  "waitForSpot_locked queueIndex L =
     (let L1 = L\<lparr>waitingCount := waitingCount L - 1\<rparr>;
          L2 = (if 0 \<le> queueIndex \<and> queueIndex < int PARKING_QUEUE_SIZE
                then L1\<lparr>queueSlotOccupied := (queueSlotOccupied L1)[nat queueIndex := False]\<rparr>
                else L1);
          L3 = L2\<lparr>occupiedSpots := occupiedSpots L2 + 1\<rparr>
      in case first_free 0 PARKING_CAPACITY (spotOccupied L3) of
           None \<Rightarrow> (-1, L3)
         | Some i \<Rightarrow> (int i, L3\<lparr>spotOccupied := (spotOccupied L3)[i := True]\<rparr>))"

definition waitForSpot :: "int \<Rightarrow> ParkingLot \<Rightarrow> (int \<times> ParkingLot) option" where
  "waitForSpot queueIndex L = map_option (waitForSpot_locked queueIndex) (waitForSpot_sems L)"

definition leave :: "int \<Rightarrow> ParkingLot \<Rightarrow> ParkingLot" where
  "leave spotIndex L =
     (let L1 = (if 0 \<le> spotIndex \<and> spotIndex < int PARKING_CAPACITY
                then L\<lparr>spotOccupied := (spotOccupied L)[nat spotIndex := False]\<rparr>
                else L);
          L2 = L1\<lparr>occupiedSpots := occupiedSpots L1 - 1\<rparr>
      in L2\<lparr>spots := sem_post (spots L2)\<rparr>)"

definition getOccupiedCount :: "ParkingLot \<Rightarrow> int" where
  "getOccupiedCount L = occupiedSpots L"

definition getWaitingCount :: "ParkingLot \<Rightarrow> int" where
  "getWaitingCount L = waitingCount L"

text \<open>\<open>n\<close> calls of \<open>enterQueue\<close> one after the other: their results, and the lot.\<close>

fun enterQueue_calls :: "nat \<Rightarrow> ParkingLot \<Rightarrow> int list \<times> ParkingLot" where
  "enterQueue_calls 0 L = ([], L)"
| "enterQueue_calls (Suc n) L =
     (case enterQueue L of
        (r, L1) \<Rightarrow> (case enterQueue_calls n L1 of (rs, L2) \<Rightarrow> (r # rs, L2)))"

text \<open>
  The callers of a lot are the vehicle threads (vehicle.cpp): a thread calls
  \<open>enterQueue\<close>; when the result is not \<open>-1\<close> it later calls \<open>waitForSpot\<close> with that
  result, and later still \<open>leave\<close> with the index \<open>waitForSpot\<close> returned. \<open>lot_sys\<close> is
  a lot together with the indices the threads hold in their locals \<open>queueIdx\<close> and
  \<open>spotIndex\<close>; \<open>lot_step\<close> runs one complete call, and is \<open>None\<close> when no thread could
  make that call (the index is not held) or when the call does not return (\<open>sem_wait\<close>
  on an exhausted semaphore).
\<close>

datatype lot_op = EnterQueue | WaitForSpot int | Leave int

record lot_sys =
  lot :: ParkingLot
  queue_held :: "int list"
  spots_held :: "int list"

definition lot_sys_init :: lot_sys where
  "lot_sys_init = \<lparr> lot = ParkingLot_init, queue_held = [], spots_held = [] \<rparr>"

fun lot_step :: "lot_op \<Rightarrow> lot_sys \<Rightarrow> lot_sys option" where
  "lot_step EnterQueue S =
     (case enterQueue (lot S) of
        (r, L) \<Rightarrow> Some (S\<lparr>lot := L, queue_held := (if r \<noteq> -1 then r # queue_held S else queue_held S)\<rparr>))"
| "lot_step (WaitForSpot q) S =
     (if q \<in> set (queue_held S)
      then (case waitForSpot q (lot S) of
              None \<Rightarrow> None
            | Some (s, L) \<Rightarrow>
                Some (S\<lparr>lot := L, queue_held := remove1 q (queue_held S), spots_held := s # spots_held S\<rparr>))
      else None)"
| "lot_step (Leave s) S =
     (if s \<in> set (spots_held S)
      then Some (S\<lparr>lot := leave s (lot S), spots_held := remove1 s (spots_held S)\<rparr>)
      else None)"

fun lot_run :: "lot_op list \<Rightarrow> lot_sys \<Rightarrow> lot_sys option" where
  "lot_run [] S = Some S"
| "lot_run (a # as) S = (case lot_step a S of None \<Rightarrow> None | Some S' \<Rightarrow> lot_run as S')"

text \<open>The same calls with no regard to who holds what: any call on any lot.\<close>

fun lot_call :: "lot_op \<Rightarrow> ParkingLot \<Rightarrow> ParkingLot option" where
  "lot_call EnterQueue L = Some (snd (enterQueue L))"
| "lot_call (WaitForSpot q) L = map_option snd (waitForSpot q L)"
| "lot_call (Leave s) L = Some (leave s L)"

text \<open>Number of \<open>true\<close> entries of a bitmap.\<close>

definition popcount :: "bool list \<Rightarrow> nat" where
  "popcount bs = length (filter (\<lambda>b. b) bs)"

definition lot_invariant :: "ParkingLot \<Rightarrow> bool" where
  "lot_invariant L \<longleftrightarrow>
     occupiedSpots L = int (popcount (spotOccupied L)) \<and>
     waitingCount L = int (popcount (queueSlotOccupied L)) \<and>
     0 \<le> occupiedSpots L \<and> occupiedSpots L \<le> int PARKING_CAPACITY \<and>
     0 \<le> waitingCount L \<and> waitingCount L \<le> int PARKING_QUEUE_SIZE"

text \<open>The two arrays have their declared sizes.\<close>

definition lot_sized :: "ParkingLot \<Rightarrow> bool" where
  "lot_sized L \<longleftrightarrow>
     length (spotOccupied L) = PARKING_CAPACITY \<and>
     length (queueSlotOccupied L) = PARKING_QUEUE_SIZE"

text \<open>
  A lot after the first vehicle has reached its spot: \<open>enterQueue\<close> gave
  queue slot 0 and \<open>waitForSpot(0)\<close> gave spot 0.
\<close>

definition lot_one_parked :: ParkingLot where
  "lot_one_parked =
     \<lparr> spots = 9, queue = 5, occupiedSpots = 1, waitingCount = 0,
       spotOccupied = True # replicate 9 False,
       queueSlotOccupied = replicate 5 False \<rparr>"

text \<open>
  A saturated lot: ten vehicles hold the ten spots and five more hold the five queue
  slots, blocked in \<open>waitForSpot\<close>.
\<close>

definition lot_full :: ParkingLot where
  "lot_full =
     \<lparr> spots = 0, queue = 0, occupiedSpots = 10, waitingCount = 5,
       spotOccupied = replicate 10 True,
       queueSlotOccupied = replicate 5 True \<rparr>"

definition fill_ops :: "lot_op list" where
  "fill_ops = concat (replicate 10 [EnterQueue, WaitForSpot 0]) @ replicate 5 EnterQueue"

text \<open>One vehicle parked in spot 0 and a second one holding queue slot 0.\<close>

definition lot_one_waiting :: ParkingLot where
  "lot_one_waiting =
     \<lparr> spots = 9, queue = 4, occupiedSpots = 1, waitingCount = 1,
       spotOccupied = True # replicate 9 False,
       queueSlotOccupied = True # replicate 4 False \<rparr>"

text \<open>
  The saturated lot after the vehicle in spot 0 has called \<open>leave(0)\<close> and the waiter
  holding queue slot 0 has returned from \<open>sem_wait(&spots)\<close> and run
  \<open>sem_post(&queue)\<close>, but has not yet locked the mutex.
\<close>

definition lot_race :: ParkingLot where
  "lot_race =
     \<lparr> spots = 0, queue = 1, occupiedSpots = 9, waitingCount = 5,
       spotOccupied = False # replicate 9 True,
       queueSlotOccupied = replicate 5 True \<rparr>"

text \<open>The lot once that waiter has finished its critical section.\<close>

definition lot_after_race :: ParkingLot where
  "lot_after_race =
     \<lparr> spots = 0, queue = 0, occupiedSpots = 10, waitingCount = 5,
       spotOccupied = replicate 10 True,
       queueSlotOccupied = False # replicate 4 True \<rparr>"

text \<open>
  What ties a \<open>lot_sys\<close> together between calls: each semaphore counts the free entries
  of its bitmap, each counter counts the taken ones, and the indices the threads hold
  are exactly the taken entries, each held once.
\<close>

definition held_indices :: "nat \<Rightarrow> bool list \<Rightarrow> int list" where
  "held_indices n bs = map int (filter (\<lambda>i. bs ! i) [0..<n])"

definition sys_inv :: "lot_sys \<Rightarrow> bool" where
  "sys_inv S \<longleftrightarrow>
     lot_sized (lot S) \<and>
     spots (lot S) + popcount (spotOccupied (lot S)) = PARKING_CAPACITY \<and>
     queue (lot S) + popcount (queueSlotOccupied (lot S)) = PARKING_QUEUE_SIZE \<and>
     occupiedSpots (lot S) = int (popcount (spotOccupied (lot S))) \<and>
     waitingCount (lot S) = int (popcount (queueSlotOccupied (lot S))) \<and>
     distinct (queue_held S) \<and>
     set (queue_held S) = set (held_indices PARKING_QUEUE_SIZE (queueSlotOccupied (lot S))) \<and>
     distinct (spots_held S) \<and>
     set (spots_held S) = set (held_indices PARKING_CAPACITY (spotOccupied (lot S)))"

section \<open>Telemetry frames (simulation\_types.h)\<close>

text \<open>
  A \<open>float\<close> is carried as its 32-bit pattern: the frames only copy it.
\<close>

type_synonym float32 = "32 word"

record VehicleState =
  id_s :: int
  x_s :: float32
  y_s :: float32
  colorR :: int
  colorG :: int
  colorB :: int
  isActive :: bool
  isParked :: bool
  isInQueue_s :: bool
  queueIndex_s :: int
  isLeftParking_s :: bool
  type_s :: VehicleType

record TrafficLightUpdate =
  intersectionId_l :: int
  state_l :: TrafficLightState

record ParkingUpdate =
  intersectionId_p :: int
  waitingCount_p :: int

text \<open>
  \<open>PipeMessage\<close>: the magic word, and the tag \<open>type\<close> together with the union \<open>data\<close>,
  in which every sender of the program writes the member that the tag names.
\<close>

datatype PipeData =
    VEHICLE_UPDATE VehicleState
  | LIGHT_UPDATE TrafficLightUpdate
  | PARKING_UPDATE ParkingUpdate

record PipeMessage =
  magic :: "32 word"
  data :: PipeData

section \<open>Vehicle (vehicle.h, vehicle.cpp)\<close>

text \<open>
  \<open>parkingLot\<close> is a pointer: null, or the address of the one \<open>ParkingLot\<close> of the
  controller that created the vehicle. The members \<open>startX\<close> and \<open>startY\<close> are never
  written or read and are left out.
\<close>

datatype lot_ptr = Nullptr | LotOfController

record Vehicle =
  id_v :: int
  type_v :: VehicleType
  x_v :: float32
  y_v :: float32
  speed :: float32
  pipeFd :: int
  parkingLot :: lot_ptr
  active :: bool
  endX :: int
  endY :: int
  isInQueue :: bool
  queueIndex :: int
  isLeftParking :: bool

text \<open>The literals \<open>1.0f\<close>, \<open>2.0f\<close>, \<open>4.0f\<close> and the integer 0 converted to \<open>float\<close>.\<close>

definition f32_0 :: float32 where "f32_0 = 0x00000000"
definition f32_1 :: float32 where "f32_1 = 0x3F800000"
definition f32_2 :: float32 where "f32_2 = 0x40000000"
definition f32_4 :: float32 where "f32_4 = 0x40800000"

text \<open>
  The constructor, run on the storage \<open>raw\<close> that \<open>new\<close> returned: it initialises
  every member but \<open>endX\<close> and \<open>endY\<close>, which keep what the storage held.
\<close>

definition Vehicle_new :: "int \<Rightarrow> VehicleType \<Rightarrow> int \<Rightarrow> lot_ptr \<Rightarrow> Vehicle \<Rightarrow> Vehicle" where
  "Vehicle_new ident ty fd lotp raw =
     raw\<lparr> id_v := ident, type_v := ty, pipeFd := fd, parkingLot := lotp, active := True,
          isInQueue := False, queueIndex := -1, isLeftParking := False,
          speed := (if ty = AMBULANCE \<or> ty = FIRETRUCK then f32_4
                    else if ty = TRACTOR then f32_1 else f32_2),
          x_v := f32_0, y_v := f32_0 \<rparr>"

fun getColor :: "VehicleType \<Rightarrow> int \<times> int \<times> int" where
  "getColor AMBULANCE = (255, 255, 255)"
| "getColor FIRETRUCK = (255, 0, 0)"
| "getColor BUS = (0, 0, 255)"
| "getColor CAR = (0, 255, 0)"
| "getColor BIKE = (255, 255, 0)"
| "getColor TRACTOR = (100, 100, 100)"

text \<open>The \<open>VEHICLE_UPDATE\<close> frame that \<open>sendUpdate(parked)\<close> fills in.\<close>

definition vehicle_frame :: "bool \<Rightarrow> Vehicle \<Rightarrow> PipeMessage" where
  "vehicle_frame parked v =
     (case getColor (type_v v) of
        (r, g, b) \<Rightarrow>
          \<lparr> magic = MSG_MAGIC,
            data = VEHICLE_UPDATE
              \<lparr> id_s = id_v v, x_s = x_v v, y_s = y_v v,
                colorR = r, colorG = g, colorB = b,
                isActive = active v, isParked = parked,
                isInQueue_s = isInQueue v, queueIndex_s = queueIndex v,
                isLeftParking_s = isLeftParking v, type_s = type_v v \<rparr> \<rparr>)"

text \<open>The \<open>PARKING_UPDATE\<close> frame that \<open>sendUpdate\<close> fills in from the vehicle's lot.\<close>

definition parking_frame :: "Vehicle \<Rightarrow> ParkingLot \<Rightarrow> PipeMessage" where
  "parking_frame v L =
     \<lparr> magic = MSG_MAGIC,
       data = PARKING_UPDATE
         \<lparr> intersectionId_p = (if isLeftParking v then 11 else 10),
           waitingCount_p = getWaitingCount L \<rparr> \<rparr>"

text \<open>
  \<open>sendUpdate\<close>: the pipe is the list of frames written to it so far, \<open>write\<close> appends
  one frame. \<open>L\<close> is the lot that \<open>parkingLot\<close> points to when it is not null.
\<close>

definition sendUpdate :: "bool \<Rightarrow> Vehicle \<Rightarrow> ParkingLot \<Rightarrow> PipeMessage list \<Rightarrow> PipeMessage list" where
  "sendUpdate parked v L pipe =
     (let pipe1 = pipe @ [vehicle_frame parked v]
      in if parkingLot v \<noteq> Nullptr then pipe1 @ [parking_frame v L] else pipe1)"

section \<open>The vehicle threads (vehicle.cpp)\<close>

text \<open>
  The four thread functions share one shape and differ in coordinates; the commuter has
  two more phases in front and reports while it waits at the light. Coordinates are
  computed by \<open>moveTowards\<close>, which has a section of its own below: here each call of
  \<open>moveTowards\<close> is described by what it did (\<open>reached\<close>, and the position it left in
  \<open>x\<close> and \<open>y\<close>), each look at the light by the state seen. A thread is at one of
  the program points \<open>pc\<close>; the locals \<open>queueIdx\<close> and \<open>spotIndex\<close> travel with the
  program point.
\<close>

datatype thread_func =
  vehicleThreadFunc | commuterThreadFunc | f11VehicleThreadFunc | f11LocalVehicleThreadFunc

datatype pc =
    ToF11StopLine
  | PauseAtF11
  | ToStopLine
  | CheckLight
  | ToQueueEntrance
  | ToQueueBox int
  | InWaitForSpot int
  | ToSpot int
  | ParkedDwell int
  | BackToRoad
  | ToEnd
  | Returned

record tick =
  reached :: bool
  new_x :: float32
  new_y :: float32
  light :: TrafficLightState

record thread =
  pc_t :: pc
  vehicle_t :: Vehicle
  lot_t :: ParkingLot
  pipe_t :: "PipeMessage list"

definition willPark :: "Vehicle \<Rightarrow> bool" where
  "willPark v \<longleftrightarrow> parkingLot v \<noteq> Nullptr \<and> (type_v v = CAR \<or> type_v v = BIKE)"

definition send :: "bool \<Rightarrow> thread \<Rightarrow> thread" where
  "send parked T = T\<lparr>pipe_t := sendUpdate parked (vehicle_t T) (lot_t T) (pipe_t T)\<rparr>"

text \<open>
  One round of \<open>while (!moveTowards(...)) { v->sendUpdate(); usleep(...); }\<close>: the call
  of \<open>moveTowards\<close>, then either the loop body, or the code \<open>after\<close> the loop up to
  the next loop or blocking call.
\<close>

definition move_loop :: "tick \<Rightarrow> (thread \<Rightarrow> thread) \<Rightarrow> thread \<Rightarrow> thread" where
  "move_loop tk after T =
     (let T1 = T\<lparr>vehicle_t := (vehicle_t T)\<lparr>x_v := new_x tk, y_v := new_y tk\<rparr>\<rparr>
      in if reached tk then after T1 else send False T1)"

definition after_queue_entrance :: "thread \<Rightarrow> thread" where
  "after_queue_entrance T =
     (case enterQueue (lot_t T) of
        (queueIdx, L) \<Rightarrow>
          if queueIdx \<noteq> -1
          then T\<lparr>lot_t := L,
                 vehicle_t := (vehicle_t T)\<lparr>isInQueue := True, queueIndex := queueIdx\<rparr>,
                 pc_t := ToQueueBox queueIdx\<rparr>
          else T\<lparr>lot_t := L, pc_t := ToEnd\<rparr>)"

definition after_end :: "thread \<Rightarrow> thread" where
  "after_end T = (send False (T\<lparr>vehicle_t := (vehicle_t T)\<lparr>active := False\<rparr>\<rparr>))\<lparr>pc_t := Returned\<rparr>"

text \<open>
  One step of a thread. \<open>None\<close>: the thread has returned, or it is suspended in the
  \<open>sem_wait\<close> of \<open>waitForSpot\<close>.
\<close>

definition thread_step :: "thread_func \<Rightarrow> tick \<Rightarrow> thread \<Rightarrow> thread option" where
  "thread_step f tk T =
     (case pc_t T of
        ToF11StopLine \<Rightarrow> Some (move_loop tk (\<lambda>T. T\<lparr>pc_t := PauseAtF11\<rparr>) T)
      | PauseAtF11 \<Rightarrow> Some (T\<lparr>pc_t := ToStopLine\<rparr>)
      | ToStopLine \<Rightarrow> Some (move_loop tk (\<lambda>T. T\<lparr>pc_t := CheckLight\<rparr>) T)
      | CheckLight \<Rightarrow>
          if light tk = GREEN \<or> type_v (vehicle_t T) = AMBULANCE \<or> type_v (vehicle_t T) = FIRETRUCK
          then Some (T\<lparr>pc_t := (if willPark (vehicle_t T) then ToQueueEntrance else ToEnd)\<rparr>)
          else Some (if f = commuterThreadFunc then send False T else T)
      | ToQueueEntrance \<Rightarrow> Some (move_loop tk after_queue_entrance T)
      | ToQueueBox q \<Rightarrow> Some (move_loop tk (\<lambda>T. (send False T)\<lparr>pc_t := InWaitForSpot q\<rparr>) T)
      | InWaitForSpot q \<Rightarrow>
          (case waitForSpot q (lot_t T) of
             None \<Rightarrow> None
           | Some (spotIndex, L) \<Rightarrow>
               Some (T\<lparr>lot_t := L,
                       vehicle_t := (vehicle_t T)\<lparr>isInQueue := False, queueIndex := -1\<rparr>,
                       pc_t := ToSpot spotIndex\<rparr>))
      | ToSpot s \<Rightarrow> Some (move_loop tk (\<lambda>T. (send True T)\<lparr>pc_t := ParkedDwell s\<rparr>) T)
      | ParkedDwell s \<Rightarrow> Some (T\<lparr>lot_t := leave s (lot_t T), pc_t := BackToRoad\<rparr>)
      | BackToRoad \<Rightarrow> Some (move_loop tk (\<lambda>T. T\<lparr>pc_t := ToEnd\<rparr>) T)
      | ToEnd \<Rightarrow> Some (move_loop tk after_end T)
      | Returned \<Rightarrow> None)"

definition thread_start :: "thread_func \<Rightarrow> Vehicle \<Rightarrow> ParkingLot \<Rightarrow> PipeMessage list \<Rightarrow> thread" where
  "thread_start f v L pipe =
     \<lparr> pc_t = (if f = commuterThreadFunc then ToF11StopLine else ToStopLine),
       vehicle_t = v, lot_t = L, pipe_t = pipe \<rparr>"

text \<open>
  A run: before each step the other threads of the process may have changed the lot and
  written to the pipe (\<open>others\<close>); a step that is \<open>None\<close> leaves the thread where it is.
\<close>

fun thread_run :: "thread_func \<Rightarrow> (tick \<times> (ParkingLot \<Rightarrow> ParkingLot)) list \<Rightarrow> thread \<Rightarrow> thread" where
  "thread_run f [] T = T"
| "thread_run f ((tk, others) # rest) T =
     (let T1 = T\<lparr>lot_t := others (lot_t T)\<rparr>
      in case thread_step f tk T1 of
           None \<Rightarrow> thread_run f rest T1
         | Some T2 \<Rightarrow> thread_run f rest T2)"

text \<open>The frames of a pipe that are \<open>VEHICLE_UPDATE\<close>s.\<close>

fun vehicle_states :: "PipeMessage list \<Rightarrow> VehicleState list" where
  "vehicle_states [] = []"
| "vehicle_states (m # ms) =
     (case data m of
        VEHICLE_UPDATE s \<Rightarrow> s # vehicle_states ms
      | _ \<Rightarrow> vehicle_states ms)"

text \<open>
  The park decision of \<open>vehicleThreadFunc\<close> in the single-file program simulation.cpp,
  \<open>if (willPark && (rand() % 2 == 0))\<close>, with \<open>r\<close> the value \<open>rand()\<close> returned, and that
  of its \<open>commuterThreadFunc\<close>, \<open>if (willPark)\<close>.
\<close>

definition sim_vehicleThreadFunc_parks :: "Vehicle \<Rightarrow> int \<Rightarrow> bool" where
  "sim_vehicleThreadFunc_parks v r \<longleftrightarrow> willPark v \<and> r mod 2 = 0"

definition sim_commuterThreadFunc_parks :: "Vehicle \<Rightarrow> bool" where
  "sim_commuterThreadFunc_parks v \<longleftrightarrow> willPark v"

text \<open>Where the queue fields of a vehicle, or of a frame, agree with each other.\<close>

definition queue_coherent :: "bool \<Rightarrow> int \<Rightarrow> bool" where
  "queue_coherent inq idx \<longleftrightarrow>
     (inq \<longleftrightarrow> idx \<noteq> -1) \<and> (inq \<longrightarrow> 0 \<le> idx \<and> idx < int PARKING_QUEUE_SIZE)"

text \<open>The program points between the park decision and the return to the road.\<close>

fun parking_pc :: "pc \<Rightarrow> bool" where
  "parking_pc ToQueueEntrance = True"
| "parking_pc (ToQueueBox q) = True"
| "parking_pc (InWaitForSpot q) = True"
| "parking_pc (ToSpot s) = True"
| "parking_pc (ParkedDwell s) = True"
| "parking_pc BackToRoad = True"
| "parking_pc p = False"

text \<open>The program points that are a \<open>moveTowards\<close> loop.\<close>

fun moving_pc :: "pc \<Rightarrow> bool" where
  "moving_pc ToF11StopLine = True"
| "moving_pc ToStopLine = True"
| "moving_pc ToQueueEntrance = True"
| "moving_pc (ToQueueBox q) = True"
| "moving_pc (ToSpot s) = True"
| "moving_pc BackToRoad = True"
| "moving_pc ToEnd = True"
| "moving_pc p = False"

text \<open>Every \<open>VEHICLE_UPDATE\<close> frame of a pipe has coherent queue fields.\<close>

definition frames_coherent :: "PipeMessage list \<Rightarrow> bool" where
  "frames_coherent pipe \<longleftrightarrow>
     list_all (\<lambda>s. queue_coherent (isInQueue_s s) (queueIndex_s s)) (vehicle_states pipe)"

text \<open>
  The storage a \<open>new Vehicle\<close> starts from; the constructor and the spawning code
  overwrite all of it.
\<close>

definition raw_storage :: Vehicle where
  "raw_storage =
     \<lparr> id_v = 0, type_v = AMBULANCE, x_v = 0, y_v = 0, speed = 0, pipeFd = 0,
       parkingLot = Nullptr, active = False, endX = 0, endY = 0,
       isInQueue = False, queueIndex = 0, isLeftParking = False \<rparr>"

text \<open>The values 400 and 1200 as \<open>float\<close>.\<close>

definition f32_400 :: float32 where "f32_400 = 0x43C80000"
definition f32_1200 :: float32 where "f32_1200 = 0x44960000"

text \<open>
  The descriptor of the telemetry pipe, a parameter of the controller; its value plays
  no role.
\<close>

definition writePipeFd :: int where
  "writePipeFd = 4"

text \<open>
  A car as the F10 controller's \<open>spawnLocalVehicle(VehicleType::CAR)\<close> creates it for
  \<open>vehicleThreadFunc\<close>, and the same car at the stop line.
\<close>

definition spawned_car :: Vehicle where
  "spawned_car =
     (Vehicle_new 0 CAR writePipeFd LotOfController raw_storage)
       \<lparr>x_v := f32_0, y_v := f32_400, endX := 1200, endY := 400\<rparr>"

definition local_car :: Vehicle where
  "local_car =
     \<lparr> id_v = 0, type_v = CAR, x_v = 0x43700000, y_v = f32_400, speed = f32_2,
       pipeFd = writePipeFd, parkingLot = LotOfController, active = True,
       endX = 1200, endY = 400, isInQueue = False, queueIndex = -1, isLeftParking = False \<rparr>"

text \<open>
  Two results of \<open>moveTowards\<close>: the target reached at \<open>(300, 320)\<close> with the light
  seen GREEN, and a move to \<open>(241, 400)\<close> short of the target with the light seen RED.
\<close>

definition green_tick :: tick where
  "green_tick = \<lparr> reached = True, new_x = 0x43960000, new_y = 0x43A00000, light = GREEN \<rparr>"

definition moving_tick :: tick where
  "moving_tick = \<lparr> reached = False, new_x = 0x43710000, new_y = f32_400, light = RED \<rparr>"

text \<open>
  What holds of a thread between its steps: the queue fields agree, a vehicle that is in
  the queue is at one of the two program points after a successful \<open>enterQueue\<close>,
  with \<open>queueIndex\<close> the value that call returned, and every frame written agrees.
\<close>

definition thread_inv :: "thread \<Rightarrow> bool" where
  "thread_inv T \<longleftrightarrow>
     queue_coherent (isInQueue (vehicle_t T)) (queueIndex (vehicle_t T)) \<and>
     (isInQueue (vehicle_t T) \<longrightarrow>
        pc_t T = ToQueueBox (queueIndex (vehicle_t T)) \<or>
        pc_t T = InWaitForSpot (queueIndex (vehicle_t T))) \<and>
     frames_coherent (pipe_t T)"

text \<open>
  The type and the lot pointer of a thread's vehicle are those of the vehicle \<open>v\<close> it
  was started with, and only a vehicle that \<open>willPark\<close> is found between the park
  decision and the return to the road.
\<close>

definition park_inv :: "Vehicle \<Rightarrow> thread \<Rightarrow> bool" where
  "park_inv v T \<longleftrightarrow>
     type_v (vehicle_t T) = type_v v \<and> parkingLot (vehicle_t T) = parkingLot v \<and>
     (parking_pc (pc_t T) \<longrightarrow> willPark v)"

text \<open>
  \<open>q\<close> is what a successful \<open>enterQueue\<close> of the thread returned: somewhere in the
  run the thread stood at the queue entrance, its \<open>moveTowards\<close> reported the target
  reached, and \<open>enterQueue\<close>, called on the lot as it then was, returned \<open>q\<close>, not
  \<open>-1\<close>.
\<close>

definition from_enterQueue ::
  "thread_func \<Rightarrow> thread \<Rightarrow> (tick \<times> (ParkingLot \<Rightarrow> ParkingLot)) list \<Rightarrow> int \<Rightarrow> bool" where
  "from_enterQueue f start steps q \<longleftrightarrow>
     q \<noteq> -1 \<and>
     (\<exists>before tk others after.
        steps = before @ (tk, others) # after \<and>
        pc_t (thread_run f before start) = ToQueueEntrance \<and> reached tk \<and>
        fst (enterQueue (others (lot_t (thread_run f before start)))) = q)"

section \<open>The F11 controller loop (controller.cpp)\<close>

datatype CoordType = EMERGENCY_APPROACHING | CLEAR_INTERSECTION

record CoordinationMessage =
  type_c :: CoordType
  sourceIntersection :: int

record CommandMessage =
  magic_c :: "32 word"
  command :: ScenarioCommand

text \<open>
  The state of \<open>trafficControllerF11\<close> inside its \<open>while (true)\<close>. Time is logical:
  \<open>clock\<close> counts microseconds, \<open>sleep\<close> and \<open>usleep\<close> advance it by their argument and
  nothing else takes time. A pipe to the controller is the list of messages not yet
  read, oldest first, each with the time from which it can be read; the telemetry pipe
  is the list of frames written, each with the time of its \<open>write\<close>. Thread creation is
  recorded in \<open>spawned\<close>; the vehicle threads themselves run elsewhere (section above),
  so \<open>lot_f\<close> is the lot as they have left it. \<open>rand_src\<close> is the sequence of values
  \<open>rand()\<close> returns and \<open>rand_calls\<close> the number of calls made. \<open>coordReads\<close> is a
  log: the time of every \<open>read\<close> of the coordination pipe so far, whatever it returned.
\<close>

record F11 =
  clock :: nat
  lightState :: TrafficLightState
  emergencyMode :: bool
  vehicleIdCounter :: int
  localIdCounter :: int
  spawned :: "(thread_func \<times> Vehicle) list"
  readCoord :: "(nat \<times> CoordinationMessage) list"
  coordReads :: "nat list"
  cmdPipe :: "(nat \<times> CommandMessage) list"
  writePipe :: "(nat \<times> PipeMessage) list"
  lot_f :: ParkingLot
  rand_src :: "nat \<Rightarrow> nat"
  rand_calls :: nat

definition usleep :: "nat \<Rightarrow> F11 \<Rightarrow> F11" where
  "usleep n S = S\<lparr>clock := clock S + n\<rparr>"

definition write_frame :: "PipeMessage \<Rightarrow> F11 \<Rightarrow> F11" where
  "write_frame m S = S\<lparr>writePipe := writePipe S @ [(clock S, m)]\<rparr>"

definition light_frame :: "int \<Rightarrow> TrafficLightState \<Rightarrow> PipeMessage" where
  "light_frame n st =
     \<lparr> magic = MSG_MAGIC, data = LIGHT_UPDATE \<lparr> intersectionId_l = n, state_l = st \<rparr> \<rparr>"

text \<open>A non-blocking \<open>read\<close> of one whole message: the oldest one, if it has arrived.\<close>

definition read_coord :: "F11 \<Rightarrow> CoordinationMessage option \<times> F11" where
  "read_coord S =
     (let S1 = S\<lparr>coordReads := coordReads S @ [clock S]\<rparr>
      in case readCoord S of
           [] \<Rightarrow> (None, S1)
         | (t, m) # rest \<Rightarrow>
             if t \<le> clock S then (Some m, S1\<lparr>readCoord := rest\<rparr>) else (None, S1))"

definition read_cmd :: "F11 \<Rightarrow> CommandMessage option \<times> F11" where
  "read_cmd S =
     (case cmdPipe S of
        [] \<Rightarrow> (None, S)
      | (t, m) # rest \<Rightarrow> if t \<le> clock S then (Some m, S\<lparr>cmdPipe := rest\<rparr>) else (None, S))"

definition rand :: "F11 \<Rightarrow> nat \<times> F11" where
  "rand S = (rand_src S (rand_calls S), S\<lparr>rand_calls := Suc (rand_calls S)\<rparr>)"

text \<open>The cast \<open>(VehicleType)k\<close> for the values \<open>k\<close> the controllers compute.\<close>

definition VehicleType_of :: "nat \<Rightarrow> VehicleType" where
  "VehicleType_of k =
     (if k = 0 then AMBULANCE else if k = 1 then FIRETRUCK else if k = 2 then BUS
      else if k = 3 then CAR else if k = 4 then BIKE else TRACTOR)"

text \<open>The lambda \<open>spawnVehicle(type)\<close> with its default \<open>yPos = 400.0f\<close>.\<close>

definition spawnVehicle :: "VehicleType \<Rightarrow> F11 \<Rightarrow> F11" where
  "spawnVehicle ty S =
     (let v = (Vehicle_new (vehicleIdCounter S) ty writePipeFd LotOfController raw_storage)
                \<lparr>x_v := f32_1200, y_v := f32_400, endX := 0, endY := 400, isLeftParking := True\<rparr>
      in S\<lparr>vehicleIdCounter := vehicleIdCounter S + 1,
            spawned := spawned S @ [(f11VehicleThreadFunc, v)]\<rparr>)"

text \<open>The lambda \<open>spawnLocalVehicle(type)\<close> of F11.\<close>

definition spawnLocalVehicle :: "VehicleType \<Rightarrow> F11 \<Rightarrow> F11" where
  "spawnLocalVehicle ty S =
     (let v = (Vehicle_new (localIdCounter S) ty writePipeFd LotOfController raw_storage)
                \<lparr>x_v := f32_0, y_v := f32_400, endX := 1200, endY := 400, isLeftParking := True\<rparr>
      in S\<lparr>localIdCounter := localIdCounter S + 1,
            spawned := spawned S @ [(f11LocalVehicleThreadFunc, v)]\<rparr>)"

text \<open>\<open>for (int i = 0; i < n; ++i) { spawnVehicle(CAR); usleep(200000); }\<close>\<close>

fun spawn_cars :: "nat \<Rightarrow> F11 \<Rightarrow> F11" where
  "spawn_cars 0 S = S"
| "spawn_cars (Suc n) S = spawn_cars n (usleep 200000 (spawnVehicle CAR S))"

text \<open>The two loops of the \<open>GRIDLOCK\<close> branch, \<open>n\<close> rounds left.\<close>

fun spawn_gridlock_right :: "nat \<Rightarrow> F11 \<Rightarrow> F11" where
  "spawn_gridlock_right 0 S = S"
| "spawn_gridlock_right (Suc n) S =
     (case rand S of
        (r, S1) \<Rightarrow>
          spawn_gridlock_right n (usleep 100000 (spawnVehicle (VehicleType_of (r mod 4 + 2)) S1)))"

fun spawn_gridlock_left :: "nat \<Rightarrow> F11 \<Rightarrow> F11" where
  "spawn_gridlock_left 0 S = S"
| "spawn_gridlock_left (Suc n) S =
     (case rand S of
        (r, S1) \<Rightarrow>
          spawn_gridlock_left n (usleep 100000 (spawnLocalVehicle (VehicleType_of (r mod 4 + 2)) S1)))"

text \<open>The block "Check for emergency signal from F10" at the top of the loop.\<close>

definition check_emergency :: "F11 \<Rightarrow> F11" where
  "check_emergency S =
     (case read_coord S of
        (None, S1) \<Rightarrow> S1
      | (Some coordMsg, S1) \<Rightarrow>
          if type_c coordMsg = EMERGENCY_APPROACHING
          then (let S2 = S1\<lparr>emergencyMode := True\<rparr>;
                    S3 = S2\<lparr>lightState := GREEN\<rparr>;
                    S4 = write_frame (light_frame 11 GREEN) S3;
                    S5 = usleep 5000000 S4
                in S5\<lparr>emergencyMode := False\<rparr>)
          else S1)"

text \<open>The block "Check for commands from parent".\<close>

definition check_commands :: "F11 \<Rightarrow> F11" where
  "check_commands S =
     (case read_cmd S of
        (None, S1) \<Rightarrow> S1
      | (Some cmdMsg, S1) \<Rightarrow>
          if magic_c cmdMsg = CMD_MAGIC
          then (if command cmdMsg = PARKING_FULL then spawn_cars 16 S1
                else if command cmdMsg = GRIDLOCK
                then spawn_gridlock_left 3 (spawn_gridlock_right 5 S1)
                else S1)
          else S1)"

text \<open>
  The loop \<open>for (int i = 0; i < 6; ++i)\<close> of the RED phase with \<open>n\<close> rounds left: the
  half-second sleep, the read of the coordination pipe, and on an emergency the forced
  GREEN, its frame, the five-second sleep and the \<open>break\<close>.
\<close>

fun red_ticks :: "nat \<Rightarrow> F11 \<Rightarrow> F11" where
  "red_ticks 0 S = S"
| "red_ticks (Suc n) S =
     (case read_coord (usleep 500000 S) of
        (None, S1) \<Rightarrow> red_ticks n S1
      | (Some coordMsg, S1) \<Rightarrow>
          if type_c coordMsg = EMERGENCY_APPROACHING
          then usleep 5000000 (write_frame (light_frame 11 GREEN) (S1\<lparr>lightState := GREEN\<rparr>))
          else red_ticks n S1)"

definition red_phase :: "F11 \<Rightarrow> F11" where
  "red_phase S = red_ticks 6 (write_frame (light_frame 11 RED) (S\<lparr>lightState := RED\<rparr>))"

fun green_ticks :: "nat \<Rightarrow> F11 \<Rightarrow> F11" where
  "green_ticks 0 S = S"
| "green_ticks (Suc n) S = green_ticks n (usleep 500000 S)"

definition parking_update_frame :: "int \<Rightarrow> ParkingLot \<Rightarrow> PipeMessage" where
  "parking_update_frame n L =
     \<lparr> magic = MSG_MAGIC,
       data = PARKING_UPDATE \<lparr> intersectionId_p = n, waitingCount_p = getWaitingCount L \<rparr> \<rparr>"

definition green_phase :: "F11 \<Rightarrow> F11" where
  "green_phase S =
     (let S1 = write_frame (light_frame 11 GREEN) (S\<lparr>lightState := GREEN\<rparr>);
          S2 = green_ticks 6 S1
      in write_frame (parking_update_frame 11 (lot_f S2)) S2)"

text \<open>One round of \<open>while (true)\<close>, and \<open>n\<close> rounds.\<close>

definition f11_iteration :: "F11 \<Rightarrow> F11" where
  "f11_iteration S =
     (let S1 = check_commands (check_emergency S)
      in if \<not> emergencyMode S1 then green_phase (red_phase S1) else S1)"

fun f11_loop :: "nat \<Rightarrow> F11 \<Rightarrow> F11" where
  "f11_loop 0 S = S"
| "f11_loop (Suc n) S = f11_loop n (f11_iteration S)"

definition emergency_msg :: CoordinationMessage where
  "emergency_msg = \<lparr> type_c = EMERGENCY_APPROACHING, sourceIntersection = 10 \<rparr>"

text \<open>
  F11 entering a round of its loop at time 0 on RED, with one emergency signal in its
  pipe and a second one that arrives one second later.
\<close>

definition f11_two_signals :: F11 where
  "f11_two_signals =
     \<lparr> clock = 0, lightState = RED, emergencyMode = False,
       vehicleIdCounter = 103, localIdCounter = 152, spawned = [],
       readCoord = [(0, emergency_msg), (1000000, emergency_msg)], coordReads = [],
       cmdPipe = [], writePipe = [], lot_f = ParkingLot_init,
       rand_src = (\<lambda>n. 0), rand_calls = 5 \<rparr>"

text \<open>
  F11 entering a round at time 0 on RED with one emergency signal in its pipe, none to
  follow, and a \<open>GREEN_WAVE\<close> command waiting, which F11 reads and does not act on.
\<close>

definition f11_one_signal :: F11 where
  "f11_one_signal =
     \<lparr> clock = 0, lightState = RED, emergencyMode = False,
       vehicleIdCounter = 103, localIdCounter = 152, spawned = [],
       readCoord = [(0, emergency_msg)], coordReads = [],
       cmdPipe = [(0, \<lparr> magic_c = CMD_MAGIC, command = GREEN_WAVE \<rparr>)],
       writePipe = [], lot_f = ParkingLot_init,
       rand_src = (\<lambda>n. 0), rand_calls = 5 \<rparr>"

text \<open>No signal can be read from the coordination pipe at time \<open>t\<close> or before.\<close>

definition no_arrival_by :: "F11 \<Rightarrow> nat \<Rightarrow> bool" where
  "no_arrival_by S t = (case readCoord S of [] \<Rightarrow> True | (a, m) # rest \<Rightarrow> t < a)"

text \<open>
  \<open>S'\<close> differs from \<open>S\<close> at most in what spawning touches: the coordination pipe and
  its log, the telemetry written, the light, the mode flag and the lot are the same, and
  time has not run backwards.
\<close>

definition kept :: "F11 \<Rightarrow> F11 \<Rightarrow> bool" where
  "kept S S' \<longleftrightarrow>
     readCoord S' = readCoord S \<and> coordReads S' = coordReads S \<and>
     writePipe S' = writePipe S \<and> lightState S' = lightState S \<and>
     emergencyMode S' = emergencyMode S \<and> lot_f S' = lot_f S \<and> clock S \<le> clock S'"

text \<open>The times of the reads after the first \<open>k\<close> half-second slices that start at \<open>c\<close>.\<close>

definition slice_ends :: "nat \<Rightarrow> nat \<Rightarrow> nat list" where
  "slice_ends c k = map (\<lambda>i. c + (i + 1) * 500000) [0..<k]"

section \<open>The frames as bytes and the visualizer's pipe reader (visualizer.cpp)\<close>

text \<open>
  \<open>write(pipeFd, &msg, sizeof(msg))\<close> puts the object representation of a \<open>PipeMessage\<close>
  into the pipe, \<open>read(pipe, &msg, sizeof(msg))\<close> takes bytes out of it. The layout is
  the one of Linux on x86-64 (and on AArch64): \<open>int\<close>, \<open>float\<close>, \<open>uint32_t\<close> and the
  enumerations are four bytes, least significant byte first, and aligned to four; a
  \<open>bool\<close> is one byte, 1 or 0. So \<open>magic\<close> is at offset 0, the tag
  \<open>type\<close> at 4, the union \<open>data\<close> at 8, and \<open>sizeof(PipeMessage)\<close> is 48. In a
  \<open>VehicleState\<close> of 40 bytes \<open>id\<close>, \<open>x\<close>, \<open>y\<close>, \<open>colorR\<close>, \<open>colorG\<close>, \<open>colorB\<close> are
  at 0, 4, 8, 12, 16, 20, the three \<open>bool\<close>s \<open>isActive\<close>, \<open>isParked\<close>, \<open>isInQueue\<close> at
  24, 25, 26, \<open>queueIndex\<close> at 28, \<open>isLeftParking\<close> at 32 and \<open>type\<close> at 36; the
  bytes at 27 and 33 to 35 are padding.
\<close>

type_synonym byte = "8 word"

definition sizeof_PipeMessage :: nat where
  "sizeof_PipeMessage = 48"

definition le32 :: "32 word \<Rightarrow> byte list" where
  "le32 w =
     [of_nat (unat w mod 256), of_nat (unat w div 256 mod 256),
      of_nat (unat w div 65536 mod 256), of_nat (unat w div 16777216 mod 256)]"

definition of_le32 :: "byte list \<Rightarrow> 32 word" where
  "of_le32 bs = of_nat (foldr (\<lambda>b n. unat b + 256 * n) bs 0)"

text \<open>An \<open>int\<close> is the 32-bit two's complement word \<open>word_of_int i\<close>, read back by \<open>sint\<close>.\<close>

definition int32 :: "int \<Rightarrow> bool" where
  "int32 i \<longleftrightarrow> - 2147483648 \<le> i \<and> i < 2147483648"

definition bool8 :: "bool \<Rightarrow> byte" where
  "bool8 b = (if b then 1 else 0)"

fun VehicleType_int :: "VehicleType \<Rightarrow> 32 word" where
  "VehicleType_int AMBULANCE = 0"
| "VehicleType_int FIRETRUCK = 1"
| "VehicleType_int BUS = 2"
| "VehicleType_int CAR = 3"
| "VehicleType_int BIKE = 4"
| "VehicleType_int TRACTOR = 5"

definition VehicleType_of_int :: "32 word \<Rightarrow> VehicleType option" where
  "VehicleType_of_int w =
     (if w = 0 then Some AMBULANCE else if w = 1 then Some FIRETRUCK
      else if w = 2 then Some BUS else if w = 3 then Some CAR
      else if w = 4 then Some BIKE else if w = 5 then Some TRACTOR else None)"

fun TrafficLightState_int :: "TrafficLightState \<Rightarrow> 32 word" where
  "TrafficLightState_int RED = 0"
| "TrafficLightState_int GREEN = 1"

text \<open>
  The bytes of a \<open>VehicleState\<close>. The sender fills a local \<open>PipeMessage\<close> member by
  member, so the bytes that no member covers hold what the stack held: \<open>pad k\<close> is the
  byte at offset \<open>k\<close> of the \<open>PipeMessage\<close> before the sender wrote its members.
\<close>

definition VehicleState_bytes :: "(nat \<Rightarrow> byte) \<Rightarrow> VehicleState \<Rightarrow> byte list" where
  "VehicleState_bytes pad s =
     le32 (word_of_int (id_s s)) @ le32 (x_s s) @ le32 (y_s s) @
     le32 (word_of_int (colorR s)) @ le32 (word_of_int (colorG s)) @
     le32 (word_of_int (colorB s)) @
     [bool8 (isActive s), bool8 (isParked s), bool8 (isInQueue_s s), pad 35] @
     le32 (word_of_int (queueIndex_s s)) @
     [bool8 (isLeftParking_s s), pad 41, pad 42, pad 43] @
     le32 (VehicleType_int (type_s s))"

text \<open>
  The 48 bytes of a frame. The members \<open>light\<close> and \<open>parking\<close> of the union are eight
  bytes; the 32 bytes behind them are not written by the sender.
\<close>

definition wire :: "(nat \<Rightarrow> byte) \<Rightarrow> PipeMessage \<Rightarrow> byte list" where
  "wire pad m =
     le32 (magic m) @
     (case data m of
        VEHICLE_UPDATE s \<Rightarrow> le32 0 @ VehicleState_bytes pad s
      | LIGHT_UPDATE l \<Rightarrow>
          le32 1 @ le32 (word_of_int (intersectionId_l l)) @
          le32 (TrafficLightState_int (state_l l)) @ map pad [16..<48]
      | PARKING_UPDATE u \<Rightarrow>
          le32 2 @ le32 (word_of_int (intersectionId_p u)) @
          le32 (word_of_int (waitingCount_p u)) @ map pad [16..<48])"

text \<open>
  The bytes that a list of frames, written one \<open>write\<close> after the other, leaves in the
  pipe; \<open>pads k\<close> is the stack content under frame number \<open>k\<close>.
\<close>

definition stream :: "(nat \<Rightarrow> nat \<Rightarrow> byte) \<Rightarrow> PipeMessage list \<Rightarrow> byte list" where
  "stream pads ms = concat (map (\<lambda>(k, m). wire (pads k) m) (enumerate 0 ms))"

text \<open>The member at offset \<open>off\<close> of an object, and a \<open>bool\<close> there.\<close>

definition field32 :: "nat \<Rightarrow> byte list \<Rightarrow> 32 word" where
  "field32 off b = of_le32 (take 4 (drop off b))"

definition field_bool :: "nat \<Rightarrow> byte list \<Rightarrow> bool" where
  "field_bool off b \<longleftrightarrow> take 1 (drop off b) \<noteq> [0]"

text \<open>
  The members of a stored \<open>VehicleState\<close>, where its \<open>type\<close> holds one of the six
  enumerators.
\<close>

definition VehicleState_of :: "byte list \<Rightarrow> VehicleState option" where
  "VehicleState_of b =
     (case VehicleType_of_int (field32 36 b) of
        None \<Rightarrow> None
      | Some ty \<Rightarrow>
          Some \<lparr> id_s = sint (field32 0 b), x_s = field32 4 b, y_s = field32 8 b,
                 colorR = sint (field32 12 b), colorG = sint (field32 16 b),
                 colorB = sint (field32 20 b),
                 isActive = field_bool 24 b, isParked = field_bool 25 b,
                 isInQueue_s = field_bool 26 b, queueIndex_s = sint (field32 28 b),
                 isLeftParking_s = field_bool 32 b, type_s = ty \<rparr>)"

datatype pipe_side = PipeF10 | PipeF11

text \<open>
  The visualizer's variables that the reader assigns. \<open>vehicles[id]\<close> holds the 40
  bytes of the \<open>VehicleState\<close> that was assigned to it, a light the \<open>int\<close> value of its
  \<open>TrafficLightState\<close>.
\<close>

record Visualizer =
  vehicles :: "int \<Rightarrow> byte list option"
  lightF10 :: "32 word"
  lightF11 :: "32 word"
  parkingQueueCountF10 :: int
  parkingQueueCountF11 :: int

text \<open>
  The body of \<open>while ((bytesRead = read(...)) > 0) { ... }\<close> for either pipe. \<open>buf\<close>
  is what the \<open>read\<close> put at the start of \<open>msg\<close>, so \<open>bytesRead\<close> is its length; what
  \<open>msg\<close> holds behind a short read is never looked at.
\<close>

definition on_read :: "pipe_side \<Rightarrow> byte list \<Rightarrow> Visualizer \<Rightarrow> Visualizer" where
  "on_read side buf V =
     (if length buf = sizeof_PipeMessage \<and> field32 0 buf = MSG_MAGIC
      then (if field32 4 buf = 0
            then V\<lparr>vehicles := (vehicles V)(sint (field32 8 buf) \<mapsto> take 40 (drop 8 buf))\<rparr>
            else if field32 4 buf = 1
            then (case side of
                    PipeF10 \<Rightarrow> V\<lparr>lightF10 := field32 12 buf\<rparr>
                  | PipeF11 \<Rightarrow> V\<lparr>lightF11 := field32 12 buf\<rparr>)
            else if field32 4 buf = 2
            then (case side of
                    PipeF10 \<Rightarrow>
                      if sint (field32 8 buf) = 10
                      then V\<lparr>parkingQueueCountF10 := sint (field32 12 buf)\<rparr> else V
                  | PipeF11 \<Rightarrow>
                      if sint (field32 8 buf) = 11
                      then V\<lparr>parkingQueueCountF11 := sint (field32 12 buf)\<rparr> else V)
            else V)
      else V)"

text \<open>
  The loop on the bytes \<open>pipe\<close> that are in the pipe: \<open>read\<close> takes the first
  \<open>sizeof(msg)\<close> of them, or all of them when there are fewer, whatever \<open>write\<close> each of
  them came from; on an empty pipe the non-blocking \<open>read\<close> returns \<open>-1\<close> and the loop
  ends.
\<close>

function drain :: "pipe_side \<Rightarrow> byte list \<Rightarrow> Visualizer \<Rightarrow> Visualizer" where
  "drain side pipe V =
     (if pipe = [] then V
      else drain side (drop sizeof_PipeMessage pipe)
             (on_read side (take sizeof_PipeMessage pipe) V))"
  by pat_completeness auto
termination
  by (relation "measure (\<lambda>(side, pipe, V). length pipe)") (simp_all add: sizeof_PipeMessage_def)

definition Visualizer_init :: Visualizer where
  "Visualizer_init =
     \<lparr> vehicles = Map.empty, lightF10 = 0, lightF11 = 0,
       parkingQueueCountF10 = 0, parkingQueueCountF11 = 0 \<rparr>"

text \<open>A second car, with the identifier 1, and stacks of zero bytes.\<close>

definition second_car :: Vehicle where
  "second_car = local_car\<lparr>id_v := 1, x_v := f32_400\<rparr>"

definition zero_pad :: "nat \<Rightarrow> byte" where
  "zero_pad k = 0"

definition zero_pads :: "nat \<Rightarrow> nat \<Rightarrow> byte" where
  "zero_pads k = zero_pad"

section \<open>\<open>moveTowards\<close> in binary32 arithmetic (vehicle.cpp)\<close>

text \<open>
  The values of the type \<open>float\<close> (IEEE 754 binary32): the finite numbers, among which
  \<open>Finite 0\<close> is the zero with the sign bit clear and \<open>MinusZero\<close> the one with it set,
  the two infinities and NaN. A finite number is a rational; the ones that occur are
  the multiples of \<open>2 ^ (e - 23)\<close> in each binade \<open>2 ^ e \<le> \<bar>q\<bar> < 2 ^ (e + 1)\<close> with
  \<open>-126 \<le> e \<le> 127\<close>, and the multiples of \<open>2 ^ (-149)\<close> below \<open>2 ^ (-126)\<close>.
\<close>

datatype float = Finite rat | MinusZero | PlusInfinity | MinusInfinity | NaN

definition pow2 :: "int \<Rightarrow> rat" where
  "pow2 e = (if 0 \<le> e then 2 ^ nat e else 1 / 2 ^ nat (- e))"

text \<open>The number of binary digits of \<open>n\<close>.\<close>

fun bits :: "nat \<Rightarrow> nat" where
  "bits n = (if n = 0 then 0 else Suc (bits (n div 2)))"

text \<open>The exponent \<open>e\<close> with \<open>2 ^ e \<le> \<bar>q\<bar> < 2 ^ (e + 1)\<close>, for \<open>q\<close> other than 0.\<close>

definition ilog2 :: "rat \<Rightarrow> int" where
  "ilog2 q =
     (let (a, b) = quotient_of \<bar>q\<bar>;
          e = int (bits (nat a)) - int (bits (nat b))
      in if pow2 e \<le> \<bar>q\<bar> then e else e - 1)"

text \<open>The nearest integer, the even one of the two when \<open>y\<close> lies halfway.\<close>

definition round_even :: "rat \<Rightarrow> int" where
  "round_even y =
     (let f = \<lfloor>y\<rfloor>; d = y - of_int f
      in if d < 1 / 2 then f
         else if 1 / 2 < d then f + 1
         else if even f then f else f + 1)"

text \<open>
  The spacing of the binary32 numbers around \<open>q\<close>, and \<open>q\<close> rounded to the nearest of
  them, ties to even: the rounding of every operation below (the default rounding mode,
  which the program never changes). The exponent is not bounded above here; \<open>fl\<close> turns
  a result of magnitude \<open>2 ^ 128\<close> or more into an infinity.
\<close>

definition ulp :: "rat \<Rightarrow> rat" where
  "ulp q = pow2 (max (ilog2 q) (- 126) - 23)"

definition rne :: "rat \<Rightarrow> rat" where
  "rne q = (if q = 0 then 0 else of_int (round_even (q / ulp q)) * ulp q)"

text \<open>
  The \<open>float\<close> that an operation with the exact result \<open>q\<close> delivers; \<open>negative\<close> is the
  sign of the exact result, which a result rounded to zero keeps.
\<close>

definition fl :: "bool \<Rightarrow> rat \<Rightarrow> float" where
  "fl negative q =
     (let r = rne q
      in if pow2 128 \<le> \<bar>r\<bar> then (if negative then MinusInfinity else PlusInfinity)
         else if r = 0 then (if negative then MinusZero else Finite 0)
         else Finite r)"

text \<open>The integer square root, two bits at a time.\<close>

fun isqrt :: "nat \<Rightarrow> nat" where
  "isqrt n =
     (if n = 0 then 0
      else let r = 2 * isqrt (n div 4)
           in if (r + 1) * (r + 1) \<le> n then r + 1 else r)"

text \<open>
  The square root of \<open>q > 0\<close> rounded to binary32: with \<open>u\<close> the spacing in the binade
  of the root, the root lies between \<open>n * u\<close> and \<open>(n + 1) * u\<close>, and the comparison of
  \<open>q\<close> with the square of the midpoint decides between the two. A square root is never
  out of the range of the normal numbers.
\<close>

definition sqrt_rne :: "rat \<Rightarrow> rat" where
  "sqrt_rne q =
     (let u = pow2 (ilog2 q div 2 - 23);
          y = q / (u * u);
          n = int (isqrt (nat \<lfloor>y\<rfloor>));
          h = (of_int n + 1 / 2) * (of_int n + 1 / 2)
      in of_int (if y < h then n else if h < y then n + 1
                 else if even n then n else n + 1) * u)"

fun is_neg :: "float \<Rightarrow> bool" where
  "is_neg (Finite q) = (q < 0)"
| "is_neg MinusZero = True"
| "is_neg PlusInfinity = False"
| "is_neg MinusInfinity = True"
| "is_neg NaN = False"

fun val :: "float \<Rightarrow> rat" where
  "val (Finite q) = q"
| "val x = 0"

fun is_num :: "float \<Rightarrow> bool" where
  "is_num (Finite q) = True"
| "is_num MinusZero = True"
| "is_num x = False"

definition signed_inf :: "bool \<Rightarrow> float" where
  "signed_inf negative = (if negative then MinusInfinity else PlusInfinity)"

definition is_inf :: "float \<Rightarrow> bool" where
  "is_inf x \<longleftrightarrow> x = PlusInfinity \<or> x = MinusInfinity"

text \<open>
  The operators \<open>+\<close>, unary and binary \<open>-\<close>, \<open>*\<close>, \<open>/\<close> and \<open><\<close> on \<open>float\<close> and
  \<open>std::sqrt\<close>, each one binary32 operation that is rounded on its own, as on x86-64,
  where each is one SSE instruction: no wider intermediate precision is used and no
  product is fused with the sum that follows it.
\<close>

definition fadd :: "float \<Rightarrow> float \<Rightarrow> float" where
  "fadd a b =
     (if a = NaN \<or> b = NaN then NaN
      else if is_inf a then (if is_inf b \<and> b \<noteq> a then NaN else a)
      else if is_inf b then b
      else if val a + val b = 0
      then (if a = MinusZero \<and> b = MinusZero then MinusZero else Finite 0)
      else fl (val a + val b < 0) (val a + val b))"

fun fneg :: "float \<Rightarrow> float" where
  "fneg (Finite q) = (if q = 0 then MinusZero else Finite (- q))"
| "fneg MinusZero = Finite 0"
| "fneg PlusInfinity = MinusInfinity"
| "fneg MinusInfinity = PlusInfinity"
| "fneg NaN = NaN"

definition fsub :: "float \<Rightarrow> float \<Rightarrow> float" where
  "fsub a b = fadd a (fneg b)"

definition fmul :: "float \<Rightarrow> float \<Rightarrow> float" where
  "fmul a b =
     (if a = NaN \<or> b = NaN then NaN
      else if is_inf a \<or> is_inf b
      then (if (is_num a \<and> val a = 0) \<or> (is_num b \<and> val b = 0) then NaN
            else signed_inf (is_neg a \<noteq> is_neg b))
      else fl (is_neg a \<noteq> is_neg b) (val a * val b))"

definition fdiv :: "float \<Rightarrow> float \<Rightarrow> float" where
  "fdiv a b =
     (if a = NaN \<or> b = NaN then NaN
      else if is_inf a then (if is_inf b then NaN else signed_inf (is_neg a \<noteq> is_neg b))
      else if is_inf b then (if is_neg a \<noteq> is_neg b then MinusZero else Finite 0)
      else if val b = 0
      then (if val a = 0 then NaN else signed_inf (is_neg a \<noteq> is_neg b))
      else fl (is_neg a \<noteq> is_neg b) (val a / val b))"

fun fsqrt :: "float \<Rightarrow> float" where
  "fsqrt (Finite q) = (if q < 0 then NaN else if q = 0 then Finite 0 else Finite (sqrt_rne q))"
| "fsqrt MinusZero = MinusZero"
| "fsqrt PlusInfinity = PlusInfinity"
| "fsqrt MinusInfinity = NaN"
| "fsqrt NaN = NaN"

definition flt :: "float \<Rightarrow> float \<Rightarrow> bool" where
  "flt a b =
     (if a = NaN \<or> b = NaN then False
      else if a = PlusInfinity \<or> b = MinusInfinity then False
      else if a = MinusInfinity \<or> b = PlusInfinity then True
      else val a < val b)"

text \<open>
  \<open>moveTowards\<close>: the result is the value returned and the new content of the
  references \<open>currX\<close> and \<open>currY\<close>. The parameter \<open>speed\<close> is \<open>spd\<close> here.
\<close>

definition moveTowards :: "float \<Rightarrow> float \<Rightarrow> float \<Rightarrow> float \<Rightarrow> float \<Rightarrow> bool \<times> float \<times> float" where
  "moveTowards currX currY targetX targetY spd =
     (let dx = fsub targetX currX;
          dy = fsub targetY currY;
          dist = fsqrt (fadd (fmul dx dx) (fmul dy dy))
      in if flt dist spd then (True, targetX, targetY)
         else let ratio = fdiv spd dist
              in (False, fadd currX (fmul dx ratio), fadd currY (fmul dy ratio)))"

text \<open>The value that \<open>moveTowards\<close> has in its local \<open>dist\<close>.\<close>

definition dist_of :: "float \<Rightarrow> float \<Rightarrow> float \<Rightarrow> float \<Rightarrow> float" where
  "dist_of currX currY targetX targetY =
     fsqrt (fadd (fmul (fsub targetX currX) (fsub targetX currX))
                 (fmul (fsub targetY currY) (fsub targetY currY)))"

text \<open>\<open>q\<close> is a finite binary32 number.\<close>

definition representable :: "rat \<Rightarrow> bool" where
  "representable q \<longleftrightarrow> rne q = q \<and> \<bar>q\<bar> < pow2 128"

text \<open>
  From \<open>(x, y)\<close> towards \<open>(tx, ty)\<close>, no operation up to \<open>dist\<close> rounds and \<open>dist\<close> is
  \<open>d\<close>: the differences, their squares, the sum of the squares and its square root
  \<open>d\<close> are binary32 numbers. And no operation behind \<open>dist\<close> rounds at the speed \<open>s\<close>:
  the quotient \<open>s / d\<close>, the two products and the two sums are binary32 numbers.
\<close>

definition exact_distance :: "rat \<Rightarrow> rat \<Rightarrow> rat \<Rightarrow> rat \<Rightarrow> rat \<Rightarrow> bool" where
  "exact_distance x y tx ty d \<longleftrightarrow>
     0 \<le> d \<and> d * d = (tx - x) * (tx - x) + (ty - y) * (ty - y) \<and>
     list_all representable
       [tx - x, ty - y, (tx - x) * (tx - x), (ty - y) * (ty - y), d * d, d]"

definition exact_step :: "rat \<Rightarrow> rat \<Rightarrow> rat \<Rightarrow> rat \<Rightarrow> rat \<Rightarrow> rat \<Rightarrow> bool" where
  "exact_step x y tx ty s d \<longleftrightarrow>
     0 < d \<and>
     list_all representable
       [s / d, (tx - x) * (s / d), (ty - y) * (s / d),
        x + (tx - x) * (s / d), y + (ty - y) * (s / d)]"

section \<open>Properties of the parking lot\<close>

subsection \<open>The first-fit scan and the bitmaps\<close>

lemma first_free_Some:
  "first_free i n arr = Some k \<Longrightarrow>
     i \<le> k \<and> k < n \<and> \<not> arr ! k \<and> (\<forall>j. i \<le> j \<and> j < k \<longrightarrow> arr ! j)"
proof (induction i n arr rule: first_free.induct)
  case (1 i n arr)
  show ?case
  proof (cases "i < n \<and> arr ! i")
    case True
    then have "first_free (Suc i) n arr = Some k"
      using "1.prems" by (simp add: first_free.simps [of i])
    with "1.IH" True have IH: "Suc i \<le> k \<and> k < n \<and> \<not> arr ! k \<and> (\<forall>j. Suc i \<le> j \<and> j < k \<longrightarrow> arr ! j)"
      by simp
    moreover have "arr ! j" if "i \<le> j" "j < k" for j
      using that IH True by (cases "j = i") auto
    ultimately show ?thesis by auto
  next
    case False
    then show ?thesis
      using "1.prems" by (auto simp: first_free.simps [of i] split: if_splits)
  qed
qed

lemma first_free_None:
  "first_free i n arr = None \<longleftrightarrow> (\<forall>j. i \<le> j \<and> j < n \<longrightarrow> arr ! j)"
proof (induction i n arr rule: first_free.induct)
  case (1 i n arr)
  show ?case
  proof (cases "i < n \<and> arr ! i")
    case True
    then have "first_free i n arr = first_free (Suc i) n arr"
      by (simp add: first_free.simps [of i])
    moreover have "(\<forall>j. i \<le> j \<and> j < n \<longrightarrow> arr ! j) \<longleftrightarrow> (\<forall>j. Suc i \<le> j \<and> j < n \<longrightarrow> arr ! j)"
      using True by (metis Suc_leD Suc_leI le_neq_implies_less)
    ultimately show ?thesis using "1.IH" True by simp
  next
    case False
    then show ?thesis
      by (auto simp: first_free.simps [of i])
  qed
qed

lemma first_free_Least:
  assumes "first_free 0 n arr = Some k"
  shows "k = (LEAST j. \<not> arr ! j)"
proof -
  from first_free_Some [OF assms] have "\<not> arr ! k" and "\<forall>j<k. arr ! j" by auto
  then show ?thesis
    by (metis (mono_tags, lifting) Least_equality not_le_imp_less)
qed

lemma popcount_le: "popcount bs \<le> length bs"
  by (simp add: popcount_def)

lemma popcount_set_True:
  "i < length bs \<Longrightarrow> \<not> bs ! i \<Longrightarrow> popcount (bs[i := True]) = Suc (popcount bs)"
proof (induction bs arbitrary: i)
  case Nil
  then show ?case by simp
next
  case (Cons b bs)
  then show ?case by (cases i) (auto simp: popcount_def)
qed

lemma popcount_set_False:
  "i < length bs \<Longrightarrow> bs ! i \<Longrightarrow> Suc (popcount (bs[i := False])) = popcount bs"
proof (induction bs arbitrary: i)
  case Nil
  then show ?case by simp
next
  case (Cons b bs)
  then show ?case by (cases i) (auto simp: popcount_def)
qed

lemma popcount_full:
  "popcount bs = length bs \<longleftrightarrow> (\<forall>i<length bs. bs ! i)"
proof -
  have "length (filter (\<lambda>b. b) bs) = length bs \<longleftrightarrow> (\<forall>b \<in> set bs. b)"
    by (metis (mono_tags, lifting) filter_id_conv length_filter_less less_irrefl)
  then show ?thesis
    by (auto simp: popcount_def all_set_conv_all_nth)
qed


lemma set_held_indices:
  "set (held_indices n bs) = {int i |i. i < n \<and> bs ! i}"
  by (auto simp: held_indices_def)

lemma held_indices_set_True:
  "i < n \<Longrightarrow> i < length bs \<Longrightarrow>
     set (held_indices n (bs[i := True])) = insert (int i) (set (held_indices n bs))"
  by (auto simp: set_held_indices nth_list_update)

lemma held_indices_set_False:
  "i < length bs \<Longrightarrow>
     set (held_indices n (bs[i := False])) = set (held_indices n bs) - {int i}"
  by (auto simp: set_held_indices nth_list_update)

lemma held_indices_mem:
  "x \<in> set (held_indices n bs) \<longleftrightarrow> 0 \<le> x \<and> x < int n \<and> bs ! nat x"
proof
  assume "x \<in> set (held_indices n bs)"
  then obtain i where "x = int i" "i < n" "bs ! i"
    by (auto simp: set_held_indices)
  then show "0 \<le> x \<and> x < int n \<and> bs ! nat x" by simp
next
  assume a: "0 \<le> x \<and> x < int n \<and> bs ! nat x"
  then have "x = int (nat x)" "nat x < n" "bs ! nat x" by auto
  then show "x \<in> set (held_indices n bs)"
    unfolding set_held_indices by blast
qed

lemma free_entry_exists:
  assumes "popcount bs < length bs"
  shows "\<exists>k. first_free 0 (length bs) bs = Some k"
proof (cases "first_free 0 (length bs) bs")
  case None
  then have "\<forall>i<length bs. bs ! i" by (simp add: first_free_None)
  then have "popcount bs = length bs" by (simp add: popcount_full)
  with assms show ?thesis by simp
next
  case (Some k)
  then show ?thesis by blast
qed

subsection \<open>The three calls, field by field\<close>

lemma leave_fields:
  "spots (leave i L) = Suc (spots L)"
  "queue (leave i L) = queue L"
  "occupiedSpots (leave i L) = occupiedSpots L - 1"
  "waitingCount (leave i L) = waitingCount L"
  "queueSlotOccupied (leave i L) = queueSlotOccupied L"
  "spotOccupied (leave i L) =
     (if 0 \<le> i \<and> i < int PARKING_CAPACITY then (spotOccupied L)[nat i := False]
      else spotOccupied L)"
  by (simp_all add: leave_def sem_post_def Let_def)

lemma enterQueue_full:
  "queue L = 0 \<Longrightarrow> enterQueue L = (-1, L)"
  by (simp add: enterQueue_def sem_trywait_def)

lemma enterQueue_free:
  assumes "0 < queue L" and "first_free 0 PARKING_QUEUE_SIZE (queueSlotOccupied L) = Some k"
  shows "enterQueue L =
           (int k, L\<lparr>queue := queue L - 1, waitingCount := waitingCount L + 1,
                     queueSlotOccupied := (queueSlotOccupied L)[k := True]\<rparr>)"
  using assms by (simp add: enterQueue_def sem_trywait_def enterQueue_locked_def Let_def)

lemma waitForSpot_blocked:
  "spots L = 0 \<Longrightarrow> waitForSpot q L = None"
  by (simp add: waitForSpot_def waitForSpot_sems_def sem_wait_def)

lemma waitForSpot_granted:
  assumes "0 < spots L" and "first_free 0 PARKING_CAPACITY (spotOccupied L) = Some k"
  shows "waitForSpot q L =
           Some (int k,
             L\<lparr>spots := spots L - 1, queue := Suc (queue L),
               waitingCount := waitingCount L - 1,
               queueSlotOccupied :=
                 (if 0 \<le> q \<and> q < int PARKING_QUEUE_SIZE
                  then (queueSlotOccupied L)[nat q := False] else queueSlotOccupied L),
               occupiedSpots := occupiedSpots L + 1,
               spotOccupied := (spotOccupied L)[k := True]\<rparr>)"
  using assms
  by (simp add: waitForSpot_def waitForSpot_sems_def sem_wait_def sem_post_def
      waitForSpot_locked_def Let_def)

subsection \<open>Calls made by the holders of the indices keep the lot consistent\<close>

lemma sys_inv_enterQueue:
  assumes inv: "sys_inv S" and step: "lot_step EnterQueue S = Some S'"
  shows "sys_inv S'"
proof (cases "queue (lot S) = 0")
  case True
  then have "S' = S\<lparr>lot := lot S, queue_held := queue_held S\<rparr>"
    using step by (simp add: enterQueue_full)
  then show ?thesis using inv by (simp add: sys_inv_def)
next
  case False
  let ?qs = "queueSlotOccupied (lot S)"
  from inv have len: "length ?qs = PARKING_QUEUE_SIZE"
    and sem: "queue (lot S) + popcount ?qs = PARKING_QUEUE_SIZE"
    by (simp_all add: sys_inv_def lot_sized_def)
  with False have "popcount ?qs < length ?qs" by simp
  then obtain k where k: "first_free 0 PARKING_QUEUE_SIZE ?qs = Some k"
    using free_entry_exists len by metis
  from first_free_Some [OF k] have kn: "k < PARKING_QUEUE_SIZE" and kfree: "\<not> ?qs ! k"
    by auto
  have S': "S' = S\<lparr>lot := (lot S)\<lparr>queue := queue (lot S) - 1,
                 waitingCount := waitingCount (lot S) + 1,
                 queueSlotOccupied := ?qs[k := True]\<rparr>,
               queue_held := int k # queue_held S\<rparr>"
    using step False k by (simp add: enterQueue_free)
  have notin: "int k \<notin> set (queue_held S)"
    using inv kfree by (simp add: sys_inv_def held_indices_mem)
  have pc: "popcount (?qs[k := True]) = Suc (popcount ?qs)"
    using kn kfree len by (simp add: popcount_set_True)
  have hs: "set (held_indices PARKING_QUEUE_SIZE (?qs[k := True])) =
              insert (int k) (set (held_indices PARKING_QUEUE_SIZE ?qs))"
    using kn len by (simp add: held_indices_set_True)
  show ?thesis
    using inv False sem notin
    unfolding S' sys_inv_def lot_sized_def
    by (simp add: pc hs)
qed

lemma sys_inv_waitForSpot:
  assumes inv: "sys_inv S" and step: "lot_step (WaitForSpot q) S = Some S'"
  shows "sys_inv S'"
proof -
  let ?qs = "queueSlotOccupied (lot S)" and ?ss = "spotOccupied (lot S)"
  from step have qin: "q \<in> set (queue_held S)"
    by (auto split: if_splits)
  from step qin have pos: "0 < spots (lot S)"
    by (cases "spots (lot S) = 0") (auto simp: waitForSpot_blocked)
  from inv have lenq: "length ?qs = PARKING_QUEUE_SIZE" and lens: "length ?ss = PARKING_CAPACITY"
    and sem: "spots (lot S) + popcount ?ss = PARKING_CAPACITY"
    by (simp_all add: sys_inv_def lot_sized_def)
  from qin inv have q: "0 \<le> q" "q < int PARKING_QUEUE_SIZE" "?qs ! nat q"
    by (simp_all add: sys_inv_def held_indices_mem)
  from pos sem lens have "popcount ?ss < length ?ss" by simp
  then obtain k where k: "first_free 0 PARKING_CAPACITY ?ss = Some k"
    using free_entry_exists lens by metis
  from first_free_Some [OF k] have kn: "k < PARKING_CAPACITY" and kfree: "\<not> ?ss ! k"
    by auto
  have S': "S' = S\<lparr>lot := (lot S)\<lparr>spots := spots (lot S) - 1, queue := Suc (queue (lot S)),
                 waitingCount := waitingCount (lot S) - 1,
                 queueSlotOccupied := ?qs[nat q := False],
                 occupiedSpots := occupiedSpots (lot S) + 1,
                 spotOccupied := ?ss[k := True]\<rparr>,
               queue_held := remove1 q (queue_held S), spots_held := int k # spots_held S\<rparr>"
    using step qin q pos k by (simp add: waitForSpot_granted)
  have notin: "int k \<notin> set (spots_held S)"
    using inv kfree by (simp add: sys_inv_def held_indices_mem)
  have pcs: "popcount (?ss[k := True]) = Suc (popcount ?ss)"
    using kn kfree lens by (simp add: popcount_set_True)
  have pcq: "Suc (popcount (?qs[nat q := False])) = popcount ?qs"
    using q lenq by (simp add: popcount_set_False)
  have hs: "set (held_indices PARKING_CAPACITY (?ss[k := True])) =
              insert (int k) (set (held_indices PARKING_CAPACITY ?ss))"
    using kn lens by (simp add: held_indices_set_True)
  have hq: "set (held_indices PARKING_QUEUE_SIZE (?qs[nat q := False])) =
              set (held_indices PARKING_QUEUE_SIZE ?qs) - {q}"
    using q lenq by (simp add: held_indices_set_False)
  have dq: "distinct (queue_held S)" using inv by (simp add: sys_inv_def)
  show ?thesis
    using inv pos sem notin pcq dq
    unfolding S' sys_inv_def lot_sized_def
    by (simp add: pcs hs hq)
qed

lemma sys_inv_leave:
  assumes inv: "sys_inv S" and step: "lot_step (Leave s) S = Some S'"
  shows "sys_inv S'"
proof -
  let ?ss = "spotOccupied (lot S)"
  from step have sin: "s \<in> set (spots_held S)"
    by (auto split: if_splits)
  from inv have lens: "length ?ss = PARKING_CAPACITY"
    by (simp add: sys_inv_def lot_sized_def)
  from sin inv have s: "0 \<le> s" "s < int PARKING_CAPACITY" "?ss ! nat s"
    by (simp_all add: sys_inv_def held_indices_mem)
  have S': "S' = S\<lparr>lot := leave s (lot S), spots_held := remove1 s (spots_held S)\<rparr>"
    using step sin by simp
  have pcs: "Suc (popcount (?ss[nat s := False])) = popcount ?ss"
    using s lens by (simp add: popcount_set_False)
  have hs: "set (held_indices PARKING_CAPACITY (?ss[nat s := False])) =
              set (held_indices PARKING_CAPACITY ?ss) - {s}"
    using s lens by (simp add: held_indices_set_False)
  have dp: "distinct (spots_held S)" using inv by (simp add: sys_inv_def)
  show ?thesis
    using inv s pcs dp
    unfolding S' sys_inv_def lot_sized_def
    by (simp add: leave_fields hs)
qed

lemma sys_inv_step:
  "sys_inv S \<Longrightarrow> lot_step a S = Some S' \<Longrightarrow> sys_inv S'"
  by (cases a) (auto intro: sys_inv_enterQueue sys_inv_waitForSpot sys_inv_leave simp del: lot_step.simps)

lemma sys_inv_run:
  "sys_inv S \<Longrightarrow> lot_run as S = Some S' \<Longrightarrow> sys_inv S'"
proof (induction as arbitrary: S)
  case Nil
  then show ?case by simp
next
  case (Cons a as)
  then show ?case
    by (auto split: option.splits dest: sys_inv_step simp del: lot_step.simps)
qed

lemma sys_inv_init: "sys_inv lot_sys_init"
  by (simp add: sys_inv_def lot_sys_init_def ParkingLot_init_def lot_sized_def popcount_def
      held_indices_def PARKING_CAPACITY_def PARKING_QUEUE_SIZE_def)

lemma sys_inv_lot_invariant:
  assumes "sys_inv S"
  shows "lot_invariant (lot S)"
proof -
  have "popcount (spotOccupied (lot S)) \<le> PARKING_CAPACITY"
    and "popcount (queueSlotOccupied (lot S)) \<le> PARKING_QUEUE_SIZE"
    using assms popcount_le [of "spotOccupied (lot S)"] popcount_le [of "queueSlotOccupied (lot S)"]
    by (simp_all add: sys_inv_def lot_sized_def)
  then show ?thesis
    using assms by (simp add: sys_inv_def lot_invariant_def)
qed


lemma lot_run_append:
  "lot_run (as @ bs) S = (case lot_run as S of None \<Rightarrow> None | Some S' \<Rightarrow> lot_run bs S')"
  by (induction as arbitrary: S) (auto split: option.splits simp del: lot_step.simps)

lemma lot_run_prefix:
  assumes "lot_run as S = Some S'"
  shows "\<exists>T. lot_run (take n as) S = Some T"
proof -
  have "lot_run (take n as @ drop n as) S = Some S'" using assms by simp
  then show ?thesis
    unfolding lot_run_append by (auto split: option.splits)
qed

subsection \<open>The example lots are reached from a new lot\<close>

lemma lot_one_parked_reached:
  "lot_run [EnterQueue, WaitForSpot 0] lot_sys_init =
     Some \<lparr>lot = lot_one_parked, queue_held = [], spots_held = [0]\<rparr>"
  by code_simp

lemma lot_one_waiting_reached:
  "lot_run [EnterQueue, WaitForSpot 0, EnterQueue] lot_sys_init =
     Some \<lparr>lot = lot_one_waiting, queue_held = [0], spots_held = [0]\<rparr>"
  by code_simp

lemma lot_full_reached:
  "lot_run fill_ops lot_sys_init =
     Some \<lparr>lot = lot_full, queue_held = [4, 3, 2, 1, 0], spots_held = [9, 8, 7, 6, 5, 4, 3, 2, 1, 0]\<rparr>"
  by code_simp

subsection \<open>C1: \<open>leave\<close> with an index out of range\<close>

text \<open>
  C1 as stated fails. On the lot with one parked vehicle, \<open>leave(-1)\<close> is not a no-op:
  the bitmap is untouched, but \<open>occupiedSpots\<close> drops from 1 to 0 while one entry is
  still set, and the \<open>spots\<close> semaphore rises from 9 to 10.
\<close>

theorem leave_out_of_range_counterexample:
  "popcount (spotOccupied lot_one_parked) = 1 \<and> occupiedSpots lot_one_parked = 1 \<and>
   spots lot_one_parked = 9 \<and>
   leave (-1) lot_one_parked \<noteq> lot_one_parked \<and>
   occupiedSpots (leave (-1) lot_one_parked) = 0 \<and>
   spots (leave (-1) lot_one_parked) = 10 \<and>
   spotOccupied (leave (-1) lot_one_parked) = spotOccupied lot_one_parked"
  by code_simp

text \<open>
  C1, amended: the bounds check of \<open>leave\<close> guards the bitmap write only. With an index
  out of range (\<open>i < 0\<close> or \<open>i \<ge> 10\<close>) the bitmap is unchanged; with an index in range
  that entry is cleared, whether or not it was set. In both cases \<open>occupiedSpots\<close> is
  decremented, the \<open>spots\<close> semaphore is posted, and the queue side is unchanged.
\<close>

theorem leave_effect:
  "(i < 0 \<or> int PARKING_CAPACITY \<le> i \<longrightarrow> spotOccupied (leave i L) = spotOccupied L) \<and>
   (0 \<le> i \<and> i < int PARKING_CAPACITY \<longrightarrow>
      spotOccupied (leave i L) = (spotOccupied L)[nat i := False]) \<and>
   occupiedSpots (leave i L) = occupiedSpots L - 1 \<and>
   spots (leave i L) = spots L + 1 \<and>
   queue (leave i L) = queue L \<and>
   waitingCount (leave i L) = waitingCount L \<and>
   queueSlotOccupied (leave i L) = queueSlotOccupied L"
  by (auto simp: leave_fields)

theorem leave_effect_witness:
  "((-1::int) < 0 \<or> int PARKING_CAPACITY \<le> -1) \<and>
   spotOccupied (leave (-1) lot_one_parked) = spotOccupied lot_one_parked \<and>
   occupiedSpots (leave (-1) lot_one_parked) = occupiedSpots lot_one_parked - 1 \<and>
   spots (leave (-1) lot_one_parked) = spots lot_one_parked + 1 \<and>
   ((0::int) \<le> 0 \<and> 0 < int PARKING_CAPACITY) \<and>
   spotOccupied (leave 0 lot_one_parked) = (spotOccupied lot_one_parked)[nat 0 := False] \<and>
   occupiedSpots (leave 0 lot_one_parked) = occupiedSpots lot_one_parked - 1 \<and>
   spots (leave 0 lot_one_parked) = spots lot_one_parked + 1"
proof -
  have h1: "(-1::int) < 0 \<or> int PARKING_CAPACITY \<le> -1" by simp
  have h2: "(0::int) \<le> 0 \<and> 0 < int PARKING_CAPACITY" by (simp add: PARKING_CAPACITY_def)
  from h1 h2 leave_effect [of "-1" lot_one_parked] leave_effect [of 0 lot_one_parked]
  show ?thesis by blast
qed

subsection \<open>C2: the counters and the bitmaps\<close>

text \<open>
  C2 as stated fails: the sequence consisting of the single call \<open>leave(0)\<close> on a new
  lot ends with \<open>occupiedSpots = -1\<close>.
\<close>

theorem lot_invariant_counterexample:
  "lot_call (Leave 0) ParkingLot_init = Some (leave 0 ParkingLot_init) \<and>
   occupiedSpots (leave 0 ParkingLot_init) = -1 \<and>
   \<not> lot_invariant (leave 0 ParkingLot_init)"
  by code_simp

text \<open>
  C2, amended: start from a constructed lot and run any sequence of calls in which each
  call runs to completion before the next starts, \<open>waitForSpot\<close> is called only with a
  queue index a caller holds from \<open>enterQueue\<close>, and \<open>leave\<close> only with a spot index a
  caller holds from \<open>waitForSpot\<close>. Then after each call (after every prefix of the
  sequence) \<open>occupiedSpots\<close> is the number of set spot entries, \<open>waitingCount\<close> the
  number of set queue entries, \<open>0 \<le> occupiedSpots \<le> 10\<close> and \<open>0 \<le> waitingCount \<le> 5\<close>.
\<close>

theorem lot_invariant_protocol:
  assumes "lot_run as lot_sys_init = Some S" and "n \<le> length as"
  shows "\<exists>T. lot_run (take n as) lot_sys_init = Some T \<and> lot_invariant (lot T)"
proof -
  from lot_run_prefix [OF assms(1)] obtain T where T: "lot_run (take n as) lot_sys_init = Some T"
    by blast
  with sys_inv_init have "sys_inv T" by (rule sys_inv_run)
  then have "lot_invariant (lot T)" by (rule sys_inv_lot_invariant)
  with T show ?thesis by blast
qed

theorem lot_invariant_protocol_witness:
  "lot_run fill_ops lot_sys_init =
     Some \<lparr>lot = lot_full, queue_held = [4, 3, 2, 1, 0], spots_held = [9, 8, 7, 6, 5, 4, 3, 2, 1, 0]\<rparr> \<and>
   (25::nat) \<le> length fill_ops \<and>
   (\<exists>T. lot_run (take 25 fill_ops) lot_sys_init = Some T \<and> lot_invariant (lot T))"
proof -
  have r: "lot_run fill_ops lot_sys_init =
     Some \<lparr>lot = lot_full, queue_held = [4, 3, 2, 1, 0], spots_held = [9, 8, 7, 6, 5, 4, 3, 2, 1, 0]\<rparr>"
    by (rule lot_full_reached)
  have l: "(25::nat) \<le> length fill_ops" by code_simp
  from lot_invariant_protocol [OF r l] r l show ?thesis by blast
qed

subsection \<open>C4: what \<open>waitForSpot\<close> changes\<close>



subsection \<open>\<open>enterQueue\<close> between complete calls\<close>

text \<open>
  On a lot whose queue semaphore counts the free entries of the queue bitmap, as it does
  between complete calls, \<open>enterQueue\<close> returns \<open>-1\<close> and changes nothing when the five
  entries are taken, and otherwise takes the lowest free entry. A burst of \<open>5 + n\<close>
  calls on an empty queue gets the indices 0 to 4 and then \<open>n\<close> times \<open>-1\<close>.
\<close>

lemma enterQueue_between_calls:
  assumes len: "length (queueSlotOccupied L) = PARKING_QUEUE_SIZE"
    and sem: "queue L + popcount (queueSlotOccupied L) = PARKING_QUEUE_SIZE"
  shows "(popcount (queueSlotOccupied L) = PARKING_QUEUE_SIZE \<longrightarrow> enterQueue L = (-1, L)) \<and>
         (popcount (queueSlotOccupied L) < PARKING_QUEUE_SIZE \<longrightarrow>
            (\<exists>k. k < PARKING_QUEUE_SIZE \<and> \<not> queueSlotOccupied L ! k \<and>
                 (\<forall>j. j < k \<longrightarrow> queueSlotOccupied L ! j) \<and>
                 enterQueue L =
                   (int k, L\<lparr>queue := queue L - 1, waitingCount := waitingCount L + 1,
                             queueSlotOccupied := (queueSlotOccupied L)[k := True]\<rparr>)))"
proof (intro conjI impI)
  assume "popcount (queueSlotOccupied L) = PARKING_QUEUE_SIZE"
  with sem have "queue L = 0" by simp
  then show "enterQueue L = (-1, L)" by (rule enterQueue_full)
next
  assume less: "popcount (queueSlotOccupied L) < PARKING_QUEUE_SIZE"
  with sem have pos: "0 < queue L" by simp
  from less len obtain k where k: "first_free 0 PARKING_QUEUE_SIZE (queueSlotOccupied L) = Some k"
    using free_entry_exists [of "queueSlotOccupied L"] by auto
  from first_free_Some [OF k] enterQueue_free [OF pos k]
  show "\<exists>k. k < PARKING_QUEUE_SIZE \<and> \<not> queueSlotOccupied L ! k \<and>
                 (\<forall>j. j < k \<longrightarrow> queueSlotOccupied L ! j) \<and>
                 enterQueue L =
                   (int k, L\<lparr>queue := queue L - 1, waitingCount := waitingCount L + 1,
                             queueSlotOccupied := (queueSlotOccupied L)[k := True]\<rparr>)"
    by auto
qed

lemma enterQueue_calls_full:
  "queue L = 0 \<Longrightarrow> enterQueue_calls n L = (replicate n (-1), L)"
  by (induction n) (simp_all add: enterQueue_full)

lemma enterQueue_calls_append:
  "enterQueue_calls (m + n) L =
     (case enterQueue_calls m L of
        (rs, L1) \<Rightarrow> (case enterQueue_calls n L1 of (rs', L2) \<Rightarrow> (rs @ rs', L2)))"
  by (induction m arbitrary: L) (auto split: prod.splits)

lemma enterQueue_calls_five:
  assumes "queue L = 5" and "queueSlotOccupied L = replicate 5 False"
  shows "enterQueue_calls 5 L =
           ([0, 1, 2, 3, 4],
            L\<lparr>queue := 0, waitingCount := waitingCount L + 5,
              queueSlotOccupied := replicate 5 True\<rparr>)"
  using assms
  by (simp add: numeral_eq_Suc enterQueue_def sem_trywait_def enterQueue_locked_def Let_def
      PARKING_QUEUE_SIZE_def first_free.simps)

lemma enterQueue_burst:
  assumes "queue L = 5" and "queueSlotOccupied L = replicate 5 False"
  shows "enterQueue_calls (5 + n) L =
           ([0, 1, 2, 3, 4] @ replicate n (-1),
            L\<lparr>queue := 0, waitingCount := waitingCount L + 5,
              queueSlotOccupied := replicate 5 True\<rparr>)"
  unfolding enterQueue_calls_append enterQueue_calls_five [OF assms]
  by (simp add: enterQueue_calls_full)

subsection \<open>C3: \<open>enterQueue\<close> while a waiter is between its semaphores and its lock\<close>

text \<open>
  C3 at a state the code reaches: the lot is saturated, spot 0 is released, and the
  waiter of queue slot 0 has posted the \<open>queue\<close> semaphore but not yet cleared its
  bitmap entry. All five queue entries are set and the semaphore is 1. \<open>enterQueue\<close>
  then takes the semaphore, raises \<open>waitingCount\<close> to 6, finds no free entry and
  returns \<open>-1\<close>. When the waiter has finished, \<open>waitingCount\<close> is 5 with four entries
  set and the semaphore is 0.
\<close>

theorem enterQueue_race:
  "lot_run fill_ops lot_sys_init =
     Some \<lparr>lot = lot_full, queue_held = [4, 3, 2, 1, 0],
           spots_held = [9, 8, 7, 6, 5, 4, 3, 2, 1, 0]\<rparr> \<and>
   waitForSpot_sems (leave 0 lot_full) = Some lot_race \<and>
   popcount (queueSlotOccupied lot_race) = 5 \<and> queue lot_race = 1 \<and>
   enterQueue lot_race = (-1, lot_race\<lparr>queue := 0, waitingCount := 6\<rparr>) \<and>
   waitForSpot_locked 0 (lot_race\<lparr>queue := 0, waitingCount := 6\<rparr>) = (0, lot_after_race) \<and>
   waitingCount lot_after_race = 5 \<and> popcount (queueSlotOccupied lot_after_race) = 4 \<and>
   queue lot_after_race = 0 \<and> \<not> lot_invariant lot_after_race"
  by code_simp

section \<open>Properties of the vehicle threads\<close>

subsection \<open>Frames and the thread invariant\<close>

lemma enterQueue_range:
  assumes "enterQueue L = (r, L')"
  shows "r = -1 \<or> (0 \<le> r \<and> r < int PARKING_QUEUE_SIZE)"
proof (cases "queue L = 0")
  case True
  with assms show ?thesis by (simp add: enterQueue_def sem_trywait_def)
next
  case False
  show ?thesis
  proof (cases "first_free 0 PARKING_QUEUE_SIZE (queueSlotOccupied L)")
    case None
    with False assms show ?thesis
      by (simp add: enterQueue_def sem_trywait_def enterQueue_locked_def Let_def)
  next
    case (Some k)
    from first_free_Some [OF Some] have "k < PARKING_QUEUE_SIZE" by simp
    with False Some assms show ?thesis
      by (auto simp: enterQueue_def sem_trywait_def enterQueue_locked_def Let_def)
  qed
qed

lemma vehicle_states_append:
  "vehicle_states (xs @ ys) = vehicle_states xs @ vehicle_states ys"
  by (induction xs) (auto split: PipeData.splits)

lemma vehicle_frame_data:
  "data (vehicle_frame parked v) =
     VEHICLE_UPDATE
       \<lparr> id_s = id_v v, x_s = x_v v, y_s = y_v v,
         colorR = fst (getColor (type_v v)),
         colorG = fst (snd (getColor (type_v v))),
         colorB = snd (snd (getColor (type_v v))),
         isActive = active v, isParked = parked,
         isInQueue_s = isInQueue v, queueIndex_s = queueIndex v,
         isLeftParking_s = isLeftParking v, type_s = type_v v \<rparr>"
  by (simp add: vehicle_frame_def split: prod.splits)

lemma vehicle_frame_magic: "magic (vehicle_frame parked v) = MSG_MAGIC"
  by (simp add: vehicle_frame_def split: prod.splits)

lemma frames_coherent_sendUpdate:
  assumes "queue_coherent (isInQueue v) (queueIndex v)" and "frames_coherent pipe"
  shows "frames_coherent (sendUpdate parked v L pipe)"
  using assms
  by (simp add: frames_coherent_def sendUpdate_def Let_def vehicle_states_append
      vehicle_frame_data parking_frame_def)

lemma thread_inv_send:
  "thread_inv T \<Longrightarrow> thread_inv (send parked T)"
  by (simp add: thread_inv_def send_def frames_coherent_sendUpdate)

lemma send_fields:
  "pc_t (send parked T) = pc_t T" "vehicle_t (send parked T) = vehicle_t T"
  "lot_t (send parked T) = lot_t T"
  by (simp_all add: send_def)

lemma thread_inv_moved:
  "thread_inv T \<Longrightarrow>
     thread_inv (T\<lparr>vehicle_t := (vehicle_t T)\<lparr>x_v := a, y_v := b\<rparr>\<rparr>)"
  by (simp add: thread_inv_def)

lemma thread_inv_after_queue_entrance:
  assumes "thread_inv T" and "\<not> isInQueue (vehicle_t T)"
  shows "thread_inv (after_queue_entrance T)"
proof (cases "enterQueue (lot_t T)")
  case (Pair r L)
  from enterQueue_range [OF Pair] have "r = -1 \<or> (0 \<le> r \<and> r < int PARKING_QUEUE_SIZE)" .
  with assms Pair show ?thesis
    by (auto simp: after_queue_entrance_def thread_inv_def queue_coherent_def)
qed

lemma thread_inv_after_end:
  assumes "thread_inv T" and "\<not> isInQueue (vehicle_t T)"
  shows "thread_inv (after_end T)"
proof -
  have "thread_inv (T\<lparr>vehicle_t := (vehicle_t T)\<lparr>active := False\<rparr>\<rparr>)"
    using assms by (simp add: thread_inv_def)
  then have "thread_inv (send False (T\<lparr>vehicle_t := (vehicle_t T)\<lparr>active := False\<rparr>\<rparr>))"
    by (rule thread_inv_send)
  then show ?thesis
    using assms by (simp add: after_end_def thread_inv_def send_fields)
qed

lemma thread_inv_pc:
  "thread_inv T \<Longrightarrow> \<not> isInQueue (vehicle_t T) \<Longrightarrow> thread_inv (T\<lparr>pc_t := p\<rparr>)"
  by (simp add: thread_inv_def)

lemma thread_inv_move_loop:
  assumes "thread_inv T"
    and "thread_inv (after (T\<lparr>vehicle_t := (vehicle_t T)\<lparr>x_v := new_x tk, y_v := new_y tk\<rparr>\<rparr>))"
  shows "thread_inv (move_loop tk after T)"
proof (cases "reached tk")
  case True
  with assms(2) show ?thesis by (simp add: move_loop_def Let_def)
next
  case False
  have "thread_inv (send False (T\<lparr>vehicle_t := (vehicle_t T)\<lparr>x_v := new_x tk, y_v := new_y tk\<rparr>\<rparr>))"
    using assms(1) by (intro thread_inv_send thread_inv_moved)
  with False show ?thesis by (simp add: move_loop_def Let_def)
qed

lemma thread_inv_step:
  assumes inv: "thread_inv T" and step: "thread_step f tk T = Some T'"
  shows "thread_inv T'"
proof -
  let ?M = "T\<lparr>vehicle_t := (vehicle_t T)\<lparr>x_v := new_x tk, y_v := new_y tk\<rparr>\<rparr>"
  have M: "thread_inv ?M" using inv by (rule thread_inv_moved)
  have Mq: "isInQueue (vehicle_t ?M) = isInQueue (vehicle_t T)" by simp
  show ?thesis
  proof (cases "pc_t T")
    case ToF11StopLine
    with inv have "\<not> isInQueue (vehicle_t ?M)" by (auto simp: thread_inv_def)
    with M have "thread_inv (?M\<lparr>pc_t := PauseAtF11\<rparr>)" by (rule thread_inv_pc)
    with inv have "thread_inv (move_loop tk (\<lambda>T. T\<lparr>pc_t := PauseAtF11\<rparr>) T)"
      by (intro thread_inv_move_loop)
    with ToF11StopLine step show ?thesis by (simp add: thread_step_def)
  next
    case PauseAtF11
    with inv have "\<not> isInQueue (vehicle_t T)" by (auto simp: thread_inv_def)
    with inv have "thread_inv (T\<lparr>pc_t := ToStopLine\<rparr>)" by (rule thread_inv_pc)
    with PauseAtF11 step show ?thesis by (auto simp: thread_step_def)
  next
    case ToStopLine
    with inv have "\<not> isInQueue (vehicle_t ?M)" by (auto simp: thread_inv_def)
    with M have "thread_inv (?M\<lparr>pc_t := CheckLight\<rparr>)" by (rule thread_inv_pc)
    with inv have "thread_inv (move_loop tk (\<lambda>T. T\<lparr>pc_t := CheckLight\<rparr>) T)"
      by (intro thread_inv_move_loop)
    with ToStopLine step show ?thesis by (simp add: thread_step_def)
  next
    case CheckLight
    with inv have nq: "\<not> isInQueue (vehicle_t T)" by (auto simp: thread_inv_def)
    from inv have "thread_inv (send False T)" by (rule thread_inv_send)
    moreover from inv nq have "thread_inv (T\<lparr>pc_t := p\<rparr>)" for p by (rule thread_inv_pc)
    ultimately show ?thesis
      using CheckLight inv step by (auto simp: thread_step_def split: if_splits)
  next
    case ToQueueEntrance
    with inv have nq: "\<not> isInQueue (vehicle_t ?M)" by (auto simp: thread_inv_def)
    from M nq have "thread_inv (after_queue_entrance ?M)"
      by (rule thread_inv_after_queue_entrance)
    with inv have "thread_inv (move_loop tk after_queue_entrance T)"
      by (intro thread_inv_move_loop)
    with ToQueueEntrance step show ?thesis by (simp add: thread_step_def)
  next
    case (ToQueueBox q)
    with inv have q: "isInQueue (vehicle_t T) \<longrightarrow> queueIndex (vehicle_t T) = q"
      by (auto simp: thread_inv_def)
    have "thread_inv (send False ?M)" using M by (rule thread_inv_send)
    then have "thread_inv ((send False ?M)\<lparr>pc_t := InWaitForSpot q\<rparr>)"
      using q by (auto simp: thread_inv_def send_fields)
    with inv have "thread_inv (move_loop tk (\<lambda>T. (send False T)\<lparr>pc_t := InWaitForSpot q\<rparr>) T)"
      by (intro thread_inv_move_loop)
    with ToQueueBox step show ?thesis by (simp add: thread_step_def)
  next
    case (InWaitForSpot q)
    with inv step show ?thesis
      by (auto simp: thread_step_def thread_inv_def queue_coherent_def split: option.splits)
  next
    case (ToSpot s)
    with inv have nq: "\<not> isInQueue (vehicle_t T)" by (auto simp: thread_inv_def)
    have "thread_inv (send True ?M)" using M by (rule thread_inv_send)
    then have "thread_inv ((send True ?M)\<lparr>pc_t := ParkedDwell s\<rparr>)"
      using nq by (intro thread_inv_pc) (simp_all add: send_fields)
    with inv have "thread_inv (move_loop tk (\<lambda>T. (send True T)\<lparr>pc_t := ParkedDwell s\<rparr>) T)"
      by (intro thread_inv_move_loop)
    with ToSpot step show ?thesis by (simp add: thread_step_def)
  next
    case (ParkedDwell s)
    with inv have nq: "\<not> isInQueue (vehicle_t T)" by (auto simp: thread_inv_def)
    from inv have "thread_inv (T\<lparr>lot_t := leave s (lot_t T)\<rparr>)" by (simp add: thread_inv_def)
    then have "thread_inv (T\<lparr>lot_t := leave s (lot_t T), pc_t := BackToRoad\<rparr>)"
      using nq by (intro thread_inv_pc) simp_all
    with ParkedDwell step show ?thesis by (auto simp: thread_step_def)
  next
    case BackToRoad
    with inv have "\<not> isInQueue (vehicle_t ?M)" by (auto simp: thread_inv_def)
    with M have "thread_inv (?M\<lparr>pc_t := ToEnd\<rparr>)" by (rule thread_inv_pc)
    with inv have "thread_inv (move_loop tk (\<lambda>T. T\<lparr>pc_t := ToEnd\<rparr>) T)"
      by (intro thread_inv_move_loop)
    with BackToRoad step show ?thesis by (simp add: thread_step_def)
  next
    case ToEnd
    with inv have nq: "\<not> isInQueue (vehicle_t ?M)" by (auto simp: thread_inv_def)
    from M nq have "thread_inv (after_end ?M)" by (rule thread_inv_after_end)
    with inv have "thread_inv (move_loop tk after_end T)"
      by (intro thread_inv_move_loop)
    with ToEnd step show ?thesis by (simp add: thread_step_def)
  next
    case Returned
    with step show ?thesis by (simp add: thread_step_def)
  qed
qed

lemma thread_inv_run:
  "thread_inv T \<Longrightarrow> thread_inv (thread_run f steps T)"
proof (induction steps arbitrary: T)
  case Nil
  then show ?case by simp
next
  case (Cons a steps)
  obtain tk others where a: "a = (tk, others)" by (cases a)
  let ?T1 = "T\<lparr>lot_t := others (lot_t T)\<rparr>"
  have T1: "thread_inv ?T1" using Cons.prems by (simp add: thread_inv_def)
  show ?case
  proof (cases "thread_step f tk ?T1")
    case None
    with a T1 Cons.IH show ?thesis by (simp add: Let_def)
  next
    case (Some T2)
    with T1 have "thread_inv T2" by (rule thread_inv_step)
    with a Some Cons.IH show ?thesis by (simp add: Let_def)
  qed
qed

lemma thread_inv_start:
  "thread_inv (thread_start f
     ((Vehicle_new ident ty fd lotp raw)
        \<lparr>x_v := x0, y_v := y0, endX := ex, endY := ey, isLeftParking := left\<rparr>) L [])"
  by (simp add: thread_inv_def thread_start_def Vehicle_new_def queue_coherent_def
      frames_coherent_def)

subsection \<open>A car from the stop line into the queue\<close>

lemma spawned_car_run:
  "thread_run vehicleThreadFunc
     [(green_tick, \<lambda>L. L), (green_tick, \<lambda>L. L), (green_tick, \<lambda>L. L), (moving_tick, \<lambda>L. L)]
     (thread_start vehicleThreadFunc spawned_car ParkingLot_init []) =
   \<lparr> pc_t = ToQueueBox 0,
     vehicle_t = spawned_car\<lparr>x_v := new_x moving_tick, y_v := new_y moving_tick,
                    isInQueue := True, queueIndex := 0\<rparr>,
     lot_t = ParkingLot_init\<lparr>queue := 4, waitingCount := 1,
               queueSlotOccupied := [True, False, False, False, False]\<rparr>,
     pipe_t =
       [vehicle_frame False (spawned_car\<lparr>x_v := new_x moving_tick, y_v := new_y moving_tick,
                    isInQueue := True, queueIndex := 0\<rparr>),
        parking_frame spawned_car (ParkingLot_init\<lparr>waitingCount := 1\<rparr>)] \<rparr>"
  by (simp add: thread_start_def thread_step_def move_loop_def Let_def green_tick_def
      moving_tick_def spawned_car_def Vehicle_new_def willPark_def after_queue_entrance_def
      send_def sendUpdate_def parking_frame_def getWaitingCount_def
      enterQueue_def sem_trywait_def enterQueue_locked_def ParkingLot_init_def
      PARKING_QUEUE_SIZE_def PARKING_CAPACITY_def first_free.simps numeral_eq_Suc
      raw_storage_def)

subsection \<open>Where the queue fields change\<close>

lemma thread_run_append:
  "thread_run f (xs @ ys) T = thread_run f ys (thread_run f xs T)"
proof (induction xs arbitrary: T)
  case Nil
  then show ?case by simp
next
  case (Cons a xs)
  obtain tk others where a: "a = (tk, others)" by (cases a)
  show ?case
    by (cases "thread_step f tk (T\<lparr>lot_t := others (lot_t T)\<rparr>)") (simp_all add: a Cons.IH Let_def)
qed

lemma thread_run_snoc:
  "thread_run f (xs @ [(tk, others)]) T =
     (let T1 = (thread_run f xs T)\<lparr>lot_t := others (lot_t (thread_run f xs T))\<rparr>
      in case thread_step f tk T1 of None \<Rightarrow> T1 | Some T2 \<Rightarrow> T2)"
  by (simp add: thread_run_append Let_def split: option.splits)

lemma queue_entrance_step:
  assumes "pc_t T = ToQueueEntrance" and "reached tk"
  shows "thread_step f tk T =
           Some (case enterQueue (lot_t T) of
                   (r, L) \<Rightarrow>
                     if r \<noteq> -1
                     then T\<lparr>vehicle_t := (vehicle_t T)\<lparr>x_v := new_x tk, y_v := new_y tk,
                                            isInQueue := True, queueIndex := r\<rparr>,
                            lot_t := L, pc_t := ToQueueBox r\<rparr>
                     else T\<lparr>vehicle_t := (vehicle_t T)\<lparr>x_v := new_x tk, y_v := new_y tk\<rparr>,
                            lot_t := L, pc_t := ToEnd\<rparr>)"
  using assms
  by (simp add: thread_step_def move_loop_def after_queue_entrance_def Let_def split: prod.splits)

lemma wait_for_spot_step:
  assumes "pc_t T = InWaitForSpot q"
  shows "thread_step f tk T =
           (case waitForSpot q (lot_t T) of
              None \<Rightarrow> None
            | Some (s, L) \<Rightarrow>
                Some (T\<lparr>vehicle_t := (vehicle_t T)\<lparr>isInQueue := False, queueIndex := -1\<rparr>,
                        lot_t := L, pc_t := ToSpot s\<rparr>))"
  using assms by (simp add: thread_step_def split: option.splits prod.splits)

lemma queue_fields_step:
  assumes "thread_step f tk T = Some T'"
  shows "(isInQueue (vehicle_t T') = isInQueue (vehicle_t T) \<and>
          queueIndex (vehicle_t T') = queueIndex (vehicle_t T)) \<or>
         (pc_t T = ToQueueEntrance \<and> reached tk \<and> isInQueue (vehicle_t T') \<and>
          queueIndex (vehicle_t T') = fst (enterQueue (lot_t T)) \<and>
          queueIndex (vehicle_t T') \<noteq> -1) \<or>
         \<not> isInQueue (vehicle_t T')"
  using assms
  by (cases "pc_t T")
    (auto simp: thread_step_def move_loop_def send_def after_queue_entrance_def after_end_def
      Let_def split: prod.splits option.splits if_splits)

lemma from_enterQueue_extend:
  "from_enterQueue f start steps q \<Longrightarrow> from_enterQueue f start (steps @ later) q"
  unfolding from_enterQueue_def by (metis append.assoc append_Cons)

lemma from_enterQueue_run:
  "isInQueue (vehicle_t (thread_run f steps start)) \<Longrightarrow> \<not> isInQueue (vehicle_t start) \<Longrightarrow>
     from_enterQueue f start steps (queueIndex (vehicle_t (thread_run f steps start)))"
proof (induction steps rule: rev_induct)
  case Nil
  then show ?case by simp
next
  case (snoc a steps)
  obtain tk others where a: "a = (tk, others)" by (cases a)
  let ?U = "thread_run f steps start"
  let ?T1 = "?U\<lparr>lot_t := others (lot_t ?U)\<rparr>"
  show ?case
  proof (cases "thread_step f tk ?T1")
    case None
    then have eq: "thread_run f (steps @ [a]) start = ?T1"
      by (simp add: a thread_run_snoc Let_def)
    with snoc.prems have "isInQueue (vehicle_t ?U)" by simp
    with snoc have "from_enterQueue f start steps (queueIndex (vehicle_t ?U))" by simp
    then show ?thesis
      unfolding eq by (simp add: from_enterQueue_extend)
  next
    case (Some T2)
    then have eq: "thread_run f (steps @ [a]) start = T2"
      by (simp add: a thread_run_snoc Let_def)
    from snoc.prems eq have inq: "isInQueue (vehicle_t T2)" by simp
    from queue_fields_step [OF Some] inq
    consider (same) "isInQueue (vehicle_t T2) = isInQueue (vehicle_t ?T1)"
        "queueIndex (vehicle_t T2) = queueIndex (vehicle_t ?T1)"
      | (entered) "pc_t ?T1 = ToQueueEntrance" "reached tk"
        "queueIndex (vehicle_t T2) = fst (enterQueue (lot_t ?T1))"
        "queueIndex (vehicle_t T2) \<noteq> -1"
      by blast
    then show ?thesis
    proof cases
      case same
      with inq have "isInQueue (vehicle_t ?U)" by simp
      with snoc have "from_enterQueue f start steps (queueIndex (vehicle_t ?U))" by simp
      then have "from_enterQueue f start (steps @ [a]) (queueIndex (vehicle_t ?U))"
        by (rule from_enterQueue_extend)
      with same show ?thesis unfolding eq by simp
    next
      case entered
      have "steps @ [a] = steps @ (tk, others) # []" by (simp add: a)
      moreover have "pc_t ?U = ToQueueEntrance" using entered by simp
      moreover have "fst (enterQueue (others (lot_t ?U))) = queueIndex (vehicle_t T2)"
        using entered by simp
      ultimately show ?thesis
        unfolding eq from_enterQueue_def using entered(2,4) by blast
    qed
  qed
qed

subsection \<open>C9: the queue fields of a vehicle\<close>

text \<open>
  C9: take a vehicle as its constructor and the spawning code of a controller leave it,
  and run any of the four thread functions on it for any number of steps, against any
  lot and any interference by other threads. At every point reached \<open>isInQueue\<close> is
  false exactly when \<open>queueIndex\<close> is \<open>-1\<close>; when \<open>isInQueue\<close> is true, \<open>queueIndex\<close>
  lies in \<open>0..4\<close> and is the value that \<open>enterQueue\<close> returned, other than \<open>-1\<close>, when
  the thread called it at the queue entrance on the lot as it then was, and the thread
  is at one of the two program points that follow that call. The same coherence holds
  of the two fields in every \<open>VEHICLE_UPDATE\<close> frame the thread has written. The fields
  are written together at two places only: after \<open>enterQueue\<close>, where a result other
  than \<open>-1\<close> sets them to \<open>true\<close> and that result and the result \<open>-1\<close> leaves them
  alone, and after \<open>waitForSpot\<close> has returned, where they become \<open>false\<close> and \<open>-1\<close>.
  The two assignments at each place are adjacent in the source and are one step here.
\<close>

theorem queue_fields_coherent:
  assumes "T = thread_run f steps
             (thread_start f
                ((Vehicle_new ident ty fd lotp raw)
                   \<lparr>x_v := x0, y_v := y0, endX := ex, endY := ey, isLeftParking := left\<rparr>) L [])"
  shows "queue_coherent (isInQueue (vehicle_t T)) (queueIndex (vehicle_t T)) \<and>
         (isInQueue (vehicle_t T) \<longrightarrow>
            pc_t T = ToQueueBox (queueIndex (vehicle_t T)) \<or>
            pc_t T = InWaitForSpot (queueIndex (vehicle_t T))) \<and>
         frames_coherent (pipe_t T) \<and>
         (isInQueue (vehicle_t T) \<longrightarrow>
            from_enterQueue f
              (thread_start f
                 ((Vehicle_new ident ty fd lotp raw)
                    \<lparr>x_v := x0, y_v := y0, endX := ex, endY := ey, isLeftParking := left\<rparr>) L [])
              steps (queueIndex (vehicle_t T))) \<and>
         (pc_t U = ToQueueEntrance \<and> reached tk \<longrightarrow>
            thread_step f tk U =
              Some (case enterQueue (lot_t U) of
                      (r, L') \<Rightarrow>
                        if r \<noteq> -1
                        then U\<lparr>vehicle_t := (vehicle_t U)\<lparr>x_v := new_x tk, y_v := new_y tk,
                                               isInQueue := True, queueIndex := r\<rparr>,
                               lot_t := L', pc_t := ToQueueBox r\<rparr>
                        else U\<lparr>vehicle_t := (vehicle_t U)\<lparr>x_v := new_x tk, y_v := new_y tk\<rparr>,
                               lot_t := L', pc_t := ToEnd\<rparr>)) \<and>
         (pc_t U = InWaitForSpot q \<longrightarrow>
            thread_step f tk U =
              (case waitForSpot q (lot_t U) of
                 None \<Rightarrow> None
               | Some (s, L') \<Rightarrow>
                   Some (U\<lparr>vehicle_t := (vehicle_t U)\<lparr>isInQueue := False, queueIndex := -1\<rparr>,
                           lot_t := L', pc_t := ToSpot s\<rparr>)))"
proof -
  let ?start = "thread_start f
                 ((Vehicle_new ident ty fd lotp raw)
                    \<lparr>x_v := x0, y_v := y0, endX := ex, endY := ey, isLeftParking := left\<rparr>) L []"
  have "thread_inv T"
    unfolding assms by (intro thread_inv_run thread_inv_start)
  then have old: "queue_coherent (isInQueue (vehicle_t T)) (queueIndex (vehicle_t T))"
    "isInQueue (vehicle_t T) \<longrightarrow>
            pc_t T = ToQueueBox (queueIndex (vehicle_t T)) \<or>
            pc_t T = InWaitForSpot (queueIndex (vehicle_t T))"
    "frames_coherent (pipe_t T)"
    by (simp_all add: thread_inv_def)
  have nq: "\<not> isInQueue (vehicle_t ?start)"
    by (simp add: thread_start_def Vehicle_new_def)
  have prov: "isInQueue (vehicle_t T) \<longrightarrow> from_enterQueue f ?start steps (queueIndex (vehicle_t T))"
    unfolding assms using nq by (auto intro: from_enterQueue_run)
  have enter: "pc_t U = ToQueueEntrance \<and> reached tk \<longrightarrow>
            thread_step f tk U =
              Some (case enterQueue (lot_t U) of
                      (r, L') \<Rightarrow>
                        if r \<noteq> -1
                        then U\<lparr>vehicle_t := (vehicle_t U)\<lparr>x_v := new_x tk, y_v := new_y tk,
                                               isInQueue := True, queueIndex := r\<rparr>,
                               lot_t := L', pc_t := ToQueueBox r\<rparr>
                        else U\<lparr>vehicle_t := (vehicle_t U)\<lparr>x_v := new_x tk, y_v := new_y tk\<rparr>,
                               lot_t := L', pc_t := ToEnd\<rparr>)"
    by (auto intro: queue_entrance_step)
  have wait: "pc_t U = InWaitForSpot q \<longrightarrow>
            thread_step f tk U =
              (case waitForSpot q (lot_t U) of
                 None \<Rightarrow> None
               | Some (s, L') \<Rightarrow>
                   Some (U\<lparr>vehicle_t := (vehicle_t U)\<lparr>isInQueue := False, queueIndex := -1\<rparr>,
                           lot_t := L', pc_t := ToSpot s\<rparr>))"
    by (auto intro: wait_for_spot_step)
  from old prov enter wait show ?thesis by blast
qed

theorem queue_fields_coherent_witness:
  "isInQueue (vehicle_t (thread_run vehicleThreadFunc
     [(green_tick, \<lambda>L. L), (green_tick, \<lambda>L. L), (green_tick, \<lambda>L. L), (moving_tick, \<lambda>L. L)]
     (thread_start vehicleThreadFunc spawned_car ParkingLot_init []))) \<and>
   queueIndex (vehicle_t (thread_run vehicleThreadFunc
     [(green_tick, \<lambda>L. L), (green_tick, \<lambda>L. L), (green_tick, \<lambda>L. L), (moving_tick, \<lambda>L. L)]
     (thread_start vehicleThreadFunc spawned_car ParkingLot_init []))) = 0 \<and>
   pc_t (thread_run vehicleThreadFunc
     [(green_tick, \<lambda>L. L), (green_tick, \<lambda>L. L), (green_tick, \<lambda>L. L), (moving_tick, \<lambda>L. L)]
     (thread_start vehicleThreadFunc spawned_car ParkingLot_init [])) = ToQueueBox 0 \<and>
   vehicle_states (pipe_t (thread_run vehicleThreadFunc
     [(green_tick, \<lambda>L. L), (green_tick, \<lambda>L. L), (green_tick, \<lambda>L. L), (moving_tick, \<lambda>L. L)]
     (thread_start vehicleThreadFunc spawned_car ParkingLot_init []))) \<noteq> [] \<and>
   queue_coherent True 0 \<and>
   frames_coherent (pipe_t (thread_run vehicleThreadFunc
     [(green_tick, \<lambda>L. L), (green_tick, \<lambda>L. L), (green_tick, \<lambda>L. L), (moving_tick, \<lambda>L. L)]
     (thread_start vehicleThreadFunc spawned_car ParkingLot_init []))) \<and>
   from_enterQueue vehicleThreadFunc
     (thread_start vehicleThreadFunc spawned_car ParkingLot_init [])
     [(green_tick, \<lambda>L. L), (green_tick, \<lambda>L. L), (green_tick, \<lambda>L. L), (moving_tick, \<lambda>L. L)] 0 \<and>
   fst (enterQueue ParkingLot_init) = 0 \<and>
   pc_t \<lparr> pc_t = ToQueueEntrance, vehicle_t = local_car, lot_t = lot_full, pipe_t = [] \<rparr> =
     ToQueueEntrance \<and>
   reached green_tick \<and>
   fst (enterQueue lot_full) = -1 \<and>
   thread_step vehicleThreadFunc green_tick
     \<lparr> pc_t = ToQueueEntrance, vehicle_t = local_car, lot_t = lot_full, pipe_t = [] \<rparr> =
     Some \<lparr> pc_t = ToEnd,
            vehicle_t = local_car\<lparr>x_v := new_x green_tick, y_v := new_y green_tick\<rparr>,
            lot_t = lot_full, pipe_t = [] \<rparr> \<and>
   thread_step vehicleThreadFunc green_tick
     \<lparr> pc_t = InWaitForSpot 0, vehicle_t = local_car\<lparr>isInQueue := True, queueIndex := 0\<rparr>,
       lot_t = lot_one_waiting, pipe_t = [] \<rparr> =
     Some \<lparr> pc_t = ToSpot 1, vehicle_t = local_car,
            lot_t = \<lparr> spots = 8, queue = 5, occupiedSpots = 2, waitingCount = 0,
                      spotOccupied = True # True # replicate 8 False,
                      queueSlotOccupied = replicate 5 False \<rparr>,
            pipe_t = [] \<rparr>"
proof -
  let ?steps = "[(green_tick, \<lambda>L. L), (green_tick, \<lambda>L. L), (green_tick, \<lambda>L. L),
                 (moving_tick, \<lambda>L::ParkingLot. L)]"
  let ?T = "thread_run vehicleThreadFunc ?steps
     (thread_start vehicleThreadFunc spawned_car ParkingLot_init [])"
  let ?U = "\<lparr> pc_t = ToQueueEntrance, vehicle_t = local_car, lot_t = lot_full, pipe_t = [] \<rparr>"
  let ?W = "\<lparr> pc_t = InWaitForSpot 0, vehicle_t = local_car\<lparr>isInQueue := True, queueIndex := 0\<rparr>,
       lot_t = lot_one_waiting, pipe_t = [] \<rparr>"
  have sc: "spawned_car =
      (Vehicle_new 0 CAR writePipeFd LotOfController raw_storage)
         \<lparr>x_v := f32_0, y_v := f32_400, endX := 1200, endY := 400, isLeftParking := False\<rparr>"
    by (simp add: spawned_car_def Vehicle_new_def raw_storage_def)
  have start: "?T = thread_run vehicleThreadFunc ?steps
     (thread_start vehicleThreadFunc
        ((Vehicle_new 0 CAR writePipeFd LotOfController raw_storage)
           \<lparr>x_v := f32_0, y_v := f32_400, endX := 1200, endY := 400, isLeftParking := False\<rparr>)
        ParkingLot_init [])"
    by (simp only: sc)
  have q: "isInQueue (vehicle_t ?T)" "queueIndex (vehicle_t ?T) = 0" "pc_t ?T = ToQueueBox 0"
    "vehicle_states (pipe_t ?T) \<noteq> []"
    unfolding spawned_car_run by (simp_all add: vehicle_frame_data)
  have c: "queue_coherent True 0"
    by (simp add: queue_coherent_def PARKING_QUEUE_SIZE_def)
  have e0: "fst (enterQueue ParkingLot_init) = 0" by code_simp
  have eU: "enterQueue lot_full = (-1, lot_full)"
    by (simp add: enterQueue_full lot_full_def)
  have hU: "pc_t ?U = ToQueueEntrance" "reached green_tick" by (simp_all add: green_tick_def)
  have eW: "waitForSpot 0 lot_one_waiting =
     Some (1, \<lparr> spots = 8, queue = 5, occupiedSpots = 2, waitingCount = 0,
                spotOccupied = True # True # replicate 8 False,
                queueSlotOccupied = replicate 5 False \<rparr>)"
    by code_simp
  have hW: "pc_t ?W = InWaitForSpot 0" by simp
  note main = queue_fields_coherent [OF start, where U = ?U and tk = green_tick and q = 0]
  note wait = queue_fields_coherent [OF start, where U = ?W and tk = green_tick and q = 0]
  from main q have prov: "from_enterQueue vehicleThreadFunc
     (thread_start vehicleThreadFunc spawned_car ParkingLot_init []) ?steps 0"
    by (simp only: sc)
  from main q have fc: "frames_coherent (pipe_t ?T)" by blast
  from main hU have "thread_step vehicleThreadFunc green_tick ?U =
      Some (case enterQueue (lot_t ?U) of
              (r, L') \<Rightarrow>
                if r \<noteq> -1
                then ?U\<lparr>vehicle_t := (vehicle_t ?U)\<lparr>x_v := new_x green_tick, y_v := new_y green_tick,
                                        isInQueue := True, queueIndex := r\<rparr>,
                        lot_t := L', pc_t := ToQueueBox r\<rparr>
                else ?U\<lparr>vehicle_t := (vehicle_t ?U)\<lparr>x_v := new_x green_tick, y_v := new_y green_tick\<rparr>,
                        lot_t := L', pc_t := ToEnd\<rparr>)"
    by blast
  then have sU: "thread_step vehicleThreadFunc green_tick ?U =
     Some \<lparr> pc_t = ToEnd,
            vehicle_t = local_car\<lparr>x_v := new_x green_tick, y_v := new_y green_tick\<rparr>,
            lot_t = lot_full, pipe_t = [] \<rparr>"
    by (simp add: eU)
  from wait hW have "thread_step vehicleThreadFunc green_tick ?W =
      (case waitForSpot 0 (lot_t ?W) of
         None \<Rightarrow> None
       | Some (s, L') \<Rightarrow>
           Some (?W\<lparr>vehicle_t := (vehicle_t ?W)\<lparr>isInQueue := False, queueIndex := -1\<rparr>,
                   lot_t := L', pc_t := ToSpot s\<rparr>))"
    by blast
  then have sW: "thread_step vehicleThreadFunc green_tick ?W =
     Some \<lparr> pc_t = ToSpot 1, vehicle_t = local_car,
            lot_t = \<lparr> spots = 8, queue = 5, occupiedSpots = 2, waitingCount = 0,
                      spotOccupied = True # True # replicate 8 False,
                      queueSlotOccupied = replicate 5 False \<rparr>,
            pipe_t = [] \<rparr>"
    by (simp add: eW local_car_def)
  have eU': "fst (enterQueue lot_full) = -1" by (simp add: eU)
  from q c fc prov e0 hU eU' sU sW show ?thesis by blast
qed

subsection \<open>C5: the park decision\<close>

lemma thread_step_willPark:
  assumes "thread_step f tk T = Some T'"
  shows "type_v (vehicle_t T') = type_v (vehicle_t T) \<and>
         parkingLot (vehicle_t T') = parkingLot (vehicle_t T)"
  using assms
  by (cases "pc_t T")
    (auto simp: thread_step_def move_loop_def send_def after_queue_entrance_def after_end_def
      Let_def split: prod.splits option.splits if_splits)

lemma thread_step_parking_pc:
  assumes "thread_step f tk T = Some T'" and "parking_pc (pc_t T')"
  shows "parking_pc (pc_t T) \<or> (pc_t T = CheckLight \<and> willPark (vehicle_t T))"
  using assms
  by (cases "pc_t T")
    (auto simp: thread_step_def move_loop_def send_def after_queue_entrance_def after_end_def
      Let_def split: prod.splits option.splits if_splits)

lemma park_inv_step:
  assumes "park_inv v T" and "thread_step f tk T = Some T'"
  shows "park_inv v T'"
proof -
  from thread_step_willPark [OF assms(2)] assms(1)
  have same: "type_v (vehicle_t T') = type_v v" "parkingLot (vehicle_t T') = parkingLot v"
    by (simp_all add: park_inv_def)
  have "willPark v" if "parking_pc (pc_t T')"
  proof -
    from thread_step_parking_pc [OF assms(2) that]
    have "parking_pc (pc_t T) \<or> (pc_t T = CheckLight \<and> willPark (vehicle_t T))" .
    moreover have "willPark (vehicle_t T) = willPark v"
      using assms(1) by (simp add: park_inv_def willPark_def)
    ultimately show ?thesis using assms(1) by (auto simp: park_inv_def)
  qed
  with same show ?thesis by (simp add: park_inv_def)
qed

lemma park_inv_run:
  "park_inv v T \<Longrightarrow> park_inv v (thread_run f steps T)"
proof (induction steps arbitrary: T)
  case Nil
  then show ?case by simp
next
  case (Cons a steps)
  obtain tk others where a: "a = (tk, others)" by (cases a)
  let ?T1 = "T\<lparr>lot_t := others (lot_t T)\<rparr>"
  have T1: "park_inv v ?T1" using Cons.prems by (simp add: park_inv_def)
  show ?case
  proof (cases "thread_step f tk ?T1")
    case None
    with a T1 Cons.IH show ?thesis by (simp add: Let_def)
  next
    case (Some T2)
    with T1 have "park_inv v T2" by (rule park_inv_step)
    with a Some Cons.IH show ?thesis by (simp add: Let_def)
  qed
qed

lemma park_inv_start: "park_inv v (thread_start f v L pipe)"
  by (simp add: park_inv_def thread_start_def)

lemma check_light_go:
  assumes "pc_t T = CheckLight"
    and "light tk = GREEN \<or> type_v (vehicle_t T) = AMBULANCE \<or> type_v (vehicle_t T) = FIRETRUCK"
  shows "thread_step f tk T =
           Some (T\<lparr>pc_t := (if parkingLot (vehicle_t T) \<noteq> Nullptr \<and>
                                (type_v (vehicle_t T) = CAR \<or> type_v (vehicle_t T) = BIKE)
                             then ToQueueEntrance else ToEnd)\<rparr>)"
  using assms by (auto simp: thread_step_def willPark_def)

text \<open>
  C5 as stated fails for vehicle.cpp: a local car with a lot, at the light on GREEN, heads
  for the queue entrance, also where the draw \<open>rand() = 1\<close> makes the random test of
  simulation.cpp fail. \<open>vehicleThreadFunc\<close> of vehicle.cpp calls no \<open>rand()\<close>.
\<close>

theorem park_decision_counterexample:
  "willPark local_car \<and>
   \<not> sim_vehicleThreadFunc_parks local_car 1 \<and>
   thread_step vehicleThreadFunc green_tick
     \<lparr> pc_t = CheckLight, vehicle_t = local_car, lot_t = ParkingLot_init, pipe_t = [] \<rparr> =
     Some \<lparr> pc_t = ToQueueEntrance, vehicle_t = local_car, lot_t = ParkingLot_init, pipe_t = [] \<rparr>"
  by (simp add: willPark_def sim_vehicleThreadFunc_parks_def local_car_def thread_step_def
      green_tick_def)

text \<open>
  C5, amended: in vehicle.cpp every thread function takes the same decision once the
  light lets the vehicle go: it heads for the queue entrance, where it calls
  \<open>enterQueue\<close>, exactly when the vehicle has a lot and is a CAR or a BIKE, with no
  random choice, for a local actor as for a commuter. Hence only a CAR or a BIKE (with
  a lot) is ever found between the decision and the return to the road. The random test
  \<open>rand() % 2 == 0\<close> on top of that condition is applied only by \<open>vehicleThreadFunc\<close>
  of the single-file simulation.cpp; its \<open>commuterThreadFunc\<close> has none.
\<close>

theorem park_decision:
  "(pc_t T = CheckLight \<and>
      (light tk = GREEN \<or> type_v (vehicle_t T) = AMBULANCE \<or> type_v (vehicle_t T) = FIRETRUCK) \<longrightarrow>
      thread_step f tk T =
        Some (T\<lparr>pc_t := (if parkingLot (vehicle_t T) \<noteq> Nullptr \<and>
                             (type_v (vehicle_t T) = CAR \<or> type_v (vehicle_t T) = BIKE)
                          then ToQueueEntrance else ToEnd)\<rparr>)) \<and>
   (parking_pc (pc_t (thread_run f steps (thread_start f v L pipe))) \<longrightarrow>
      parkingLot v \<noteq> Nullptr \<and> (type_v v = CAR \<or> type_v v = BIKE)) \<and>
   (sim_vehicleThreadFunc_parks v r \<longleftrightarrow>
      parkingLot v \<noteq> Nullptr \<and> (type_v v = CAR \<or> type_v v = BIKE) \<and> r mod 2 = 0) \<and>
   (sim_commuterThreadFunc_parks v \<longleftrightarrow>
      parkingLot v \<noteq> Nullptr \<and> (type_v v = CAR \<or> type_v v = BIKE))"
proof (intro conjI impI)
  assume "pc_t T = CheckLight \<and>
      (light tk = GREEN \<or> type_v (vehicle_t T) = AMBULANCE \<or> type_v (vehicle_t T) = FIRETRUCK)"
  then show "thread_step f tk T =
        Some (T\<lparr>pc_t := (if parkingLot (vehicle_t T) \<noteq> Nullptr \<and>
                             (type_v (vehicle_t T) = CAR \<or> type_v (vehicle_t T) = BIKE)
                          then ToQueueEntrance else ToEnd)\<rparr>)"
    by (intro check_light_go) auto
next
  assume p: "parking_pc (pc_t (thread_run f steps (thread_start f v L pipe)))"
  have "park_inv v (thread_run f steps (thread_start f v L pipe))"
    by (intro park_inv_run park_inv_start)
  with p have "willPark v" by (simp add: park_inv_def)
  then show "parkingLot v \<noteq> Nullptr" and "type_v v = CAR \<or> type_v v = BIKE"
    by (simp_all add: willPark_def)
next
  show "sim_vehicleThreadFunc_parks v r \<longleftrightarrow>
      parkingLot v \<noteq> Nullptr \<and> (type_v v = CAR \<or> type_v v = BIKE) \<and> r mod 2 = 0"
    by (auto simp: sim_vehicleThreadFunc_parks_def willPark_def)
next
  show "sim_commuterThreadFunc_parks v \<longleftrightarrow>
      parkingLot v \<noteq> Nullptr \<and> (type_v v = CAR \<or> type_v v = BIKE)"
    by (simp add: sim_commuterThreadFunc_parks_def willPark_def)
qed

theorem park_decision_witness:
  "pc_t \<lparr> pc_t = CheckLight, vehicle_t = local_car, lot_t = ParkingLot_init, pipe_t = [] \<rparr> = CheckLight \<and>
   light green_tick = GREEN \<and>
   thread_step vehicleThreadFunc green_tick
     \<lparr> pc_t = CheckLight, vehicle_t = local_car, lot_t = ParkingLot_init, pipe_t = [] \<rparr> =
     Some \<lparr> pc_t = ToQueueEntrance, vehicle_t = local_car, lot_t = ParkingLot_init, pipe_t = [] \<rparr> \<and>
   parking_pc (pc_t (thread_run vehicleThreadFunc
     [(green_tick, \<lambda>L. L), (green_tick, \<lambda>L. L), (green_tick, \<lambda>L. L), (moving_tick, \<lambda>L. L)]
     (thread_start vehicleThreadFunc spawned_car ParkingLot_init []))) \<and>
   parkingLot spawned_car \<noteq> Nullptr \<and> type_v spawned_car = CAR \<and>
   sim_vehicleThreadFunc_parks local_car 2 \<and> \<not> sim_vehicleThreadFunc_parks local_car 1 \<and>
   sim_commuterThreadFunc_parks local_car"
proof -
  let ?T = "\<lparr> pc_t = CheckLight, vehicle_t = local_car, lot_t = ParkingLot_init, pipe_t = [] \<rparr>"
  have h1: "pc_t ?T = CheckLight" by simp
  have h2: "light green_tick = GREEN" by (simp add: green_tick_def)
  have h3: "parkingLot (vehicle_t ?T) \<noteq> Nullptr \<and>
            (type_v (vehicle_t ?T) = CAR \<or> type_v (vehicle_t ?T) = BIKE)"
    by (simp add: local_car_def)
  have h4: "parking_pc (pc_t (thread_run vehicleThreadFunc
     [(green_tick, \<lambda>L. L), (green_tick, \<lambda>L. L), (green_tick, \<lambda>L. L), (moving_tick, \<lambda>L. L)]
     (thread_start vehicleThreadFunc spawned_car ParkingLot_init [])))"
    unfolding spawned_car_run by simp
  have h5: "type_v spawned_car = CAR" by (simp add: spawned_car_def Vehicle_new_def)
  have h6: "parkingLot local_car \<noteq> Nullptr \<and> (type_v local_car = CAR \<or> type_v local_car = BIKE)"
    by (simp add: local_car_def)
  have h7: "(2::int) mod 2 = 0" "(1::int) mod 2 \<noteq> 0" by simp_all
  note inst1 = park_decision [where T = ?T and tk = green_tick and f = vehicleThreadFunc
      and steps = "[(green_tick, \<lambda>L. L), (green_tick, \<lambda>L. L), (green_tick, \<lambda>L. L),
                    (moving_tick, \<lambda>L. L)]"
      and v = spawned_car and L = ParkingLot_init and pipe = "[]" and r = 2]
  note inst2 = park_decision [where T = ?T and tk = green_tick and f = vehicleThreadFunc
      and steps = "[]" and v = local_car and L = ParkingLot_init and pipe = "[]" and r = 2]
  note inst3 = park_decision [where T = ?T and tk = green_tick and f = vehicleThreadFunc
      and steps = "[]" and v = local_car and L = ParkingLot_init and pipe = "[]" and r = 1]
  from inst1 h1 h2 h3 have a: "thread_step vehicleThreadFunc green_tick ?T =
     Some \<lparr> pc_t = ToQueueEntrance, vehicle_t = local_car, lot_t = ParkingLot_init, pipe_t = [] \<rparr>"
    by simp
  from inst1 h4 have b: "parkingLot spawned_car \<noteq> Nullptr" by blast
  from inst2 h6 h7 have c: "sim_vehicleThreadFunc_parks local_car 2"
    and e: "sim_commuterThreadFunc_parks local_car" by blast+
  from inst3 h7 have d: "\<not> sim_vehicleThreadFunc_parks local_car 1" by blast
  from h1 h2 a h4 b h5 c d e show ?thesis by blast
qed

subsection \<open>C10: what \<open>sendUpdate\<close> writes\<close>

lemma sendUpdate_with_lot:
  assumes "parkingLot v \<noteq> Nullptr"
  shows "sendUpdate parked v L pipe =
           pipe @ [vehicle_frame parked v,
                   \<lparr> magic = MSG_MAGIC,
                     data = PARKING_UPDATE
                       \<lparr> intersectionId_p = (if isLeftParking v then 11 else 10),
                         waitingCount_p = waitingCount L \<rparr> \<rparr>]"
  using assms by (simp add: sendUpdate_def parking_frame_def getWaitingCount_def Let_def)

lemma moving_step:
  assumes "moving_pc (pc_t T)" and "\<not> reached tk"
  shows "thread_step f tk T =
           Some (send False (T\<lparr>vehicle_t := (vehicle_t T)\<lparr>x_v := new_x tk, y_v := new_y tk\<rparr>\<rparr>))"
  using assms by (cases "pc_t T") (simp_all add: thread_step_def move_loop_def Let_def)

text \<open>
  C10: for a vehicle whose \<open>parkingLot\<close> is not null, \<open>sendUpdate\<close> appends two frames
  to the pipe: the \<open>VEHICLE_UPDATE\<close>, then a \<open>PARKING_UPDATE\<close> with the lot's current
  \<open>waitingCount\<close> and the intersection id 11 if \<open>isLeftParking\<close>, else 10. Every round
  of a \<open>moveTowards\<close> loop that has not reached its target calls it, so each
  movement tick of such a vehicle writes this pair.
\<close>

theorem sendUpdate_parking_telemetry:
  "(parkingLot v \<noteq> Nullptr \<longrightarrow>
      sendUpdate parked v L pipe =
        pipe @ [vehicle_frame parked v,
                \<lparr> magic = MSG_MAGIC,
                  data = PARKING_UPDATE
                    \<lparr> intersectionId_p = (if isLeftParking v then 11 else 10),
                      waitingCount_p = waitingCount L \<rparr> \<rparr>] \<and>
      (\<exists>s. data (vehicle_frame parked v) = VEHICLE_UPDATE s)) \<and>
   (moving_pc (pc_t T) \<and> \<not> reached tk \<and> parkingLot (vehicle_t T) \<noteq> Nullptr \<longrightarrow>
      (\<exists>T'. thread_step f tk T = Some T' \<and> pc_t T' = pc_t T \<and>
            pipe_t T' =
              pipe_t T @ [vehicle_frame False (vehicle_t T'),
                          \<lparr> magic = MSG_MAGIC,
                            data = PARKING_UPDATE
                              \<lparr> intersectionId_p = (if isLeftParking (vehicle_t T) then 11 else 10),
                                waitingCount_p = waitingCount (lot_t T) \<rparr> \<rparr>]))"
proof (intro conjI impI)
  assume "parkingLot v \<noteq> Nullptr"
  then show "sendUpdate parked v L pipe =
        pipe @ [vehicle_frame parked v,
                \<lparr> magic = MSG_MAGIC,
                  data = PARKING_UPDATE
                    \<lparr> intersectionId_p = (if isLeftParking v then 11 else 10),
                      waitingCount_p = waitingCount L \<rparr> \<rparr>]"
    by (rule sendUpdate_with_lot)
next
  show "\<exists>s. data (vehicle_frame parked v) = VEHICLE_UPDATE s"
    by (simp add: vehicle_frame_data)
next
  assume a: "moving_pc (pc_t T) \<and> \<not> reached tk \<and> parkingLot (vehicle_t T) \<noteq> Nullptr"
  let ?M = "T\<lparr>vehicle_t := (vehicle_t T)\<lparr>x_v := new_x tk, y_v := new_y tk\<rparr>\<rparr>"
  from a have step: "thread_step f tk T = Some (send False ?M)"
    by (intro moving_step) simp_all
  from a have lotp: "parkingLot (vehicle_t ?M) \<noteq> Nullptr" by simp
  have "pipe_t (send False ?M) =
          pipe_t T @ [vehicle_frame False (vehicle_t (send False ?M)),
                      \<lparr> magic = MSG_MAGIC,
                        data = PARKING_UPDATE
                          \<lparr> intersectionId_p = (if isLeftParking (vehicle_t T) then 11 else 10),
                            waitingCount_p = waitingCount (lot_t T) \<rparr> \<rparr>]"
    using sendUpdate_with_lot [OF lotp, of False "lot_t T" "pipe_t T"]
    by (simp add: send_def)
  with step show "\<exists>T'. thread_step f tk T = Some T' \<and> pc_t T' = pc_t T \<and>
            pipe_t T' =
              pipe_t T @ [vehicle_frame False (vehicle_t T'),
                          \<lparr> magic = MSG_MAGIC,
                            data = PARKING_UPDATE
                              \<lparr> intersectionId_p = (if isLeftParking (vehicle_t T) then 11 else 10),
                                waitingCount_p = waitingCount (lot_t T) \<rparr> \<rparr>]"
    by (simp add: send_fields)
qed

theorem sendUpdate_parking_telemetry_witness:
  "parkingLot local_car \<noteq> Nullptr \<and>
   sendUpdate False local_car lot_full [] =
     [vehicle_frame False local_car,
      \<lparr> magic = MSG_MAGIC,
        data = PARKING_UPDATE \<lparr> intersectionId_p = 10, waitingCount_p = 5 \<rparr> \<rparr>] \<and>
   moving_pc (pc_t \<lparr> pc_t = ToStopLine, vehicle_t = local_car, lot_t = lot_full, pipe_t = [] \<rparr>) \<and>
   \<not> reached moving_tick \<and>
   (\<exists>T'. thread_step vehicleThreadFunc moving_tick
            \<lparr> pc_t = ToStopLine, vehicle_t = local_car, lot_t = lot_full, pipe_t = [] \<rparr> = Some T' \<and>
         pc_t T' = ToStopLine \<and>
         pipe_t T' =
           [vehicle_frame False (vehicle_t T'),
            \<lparr> magic = MSG_MAGIC,
              data = PARKING_UPDATE \<lparr> intersectionId_p = 10, waitingCount_p = 5 \<rparr> \<rparr>])"
proof -
  let ?T = "\<lparr> pc_t = ToStopLine, vehicle_t = local_car, lot_t = lot_full, pipe_t = [] \<rparr>"
  have h1: "parkingLot local_car \<noteq> Nullptr" by (simp add: local_car_def)
  have h2: "moving_pc (pc_t ?T)" by simp
  have h3: "\<not> reached moving_tick" by (simp add: moving_tick_def)
  have h4: "parkingLot (vehicle_t ?T) \<noteq> Nullptr" by (simp add: local_car_def)
  have e1: "\<not> isLeftParking local_car" "waitingCount lot_full = 5"
    by (simp_all add: local_car_def lot_full_def)
  note inst = sendUpdate_parking_telemetry [where v = local_car and parked = False
      and L = lot_full and pipe = "[]" and T = ?T and tk = moving_tick and f = vehicleThreadFunc]
  from inst h1 e1 have a: "sendUpdate False local_car lot_full [] =
     [vehicle_frame False local_car,
      \<lparr> magic = MSG_MAGIC,
        data = PARKING_UPDATE \<lparr> intersectionId_p = 10, waitingCount_p = 5 \<rparr> \<rparr>]"
    by simp
  from inst h2 h3 h4 e1 have b: "\<exists>T'. thread_step vehicleThreadFunc moving_tick ?T = Some T' \<and>
         pc_t T' = ToStopLine \<and>
         pipe_t T' =
           [vehicle_frame False (vehicle_t T'),
            \<lparr> magic = MSG_MAGIC,
              data = PARKING_UPDATE \<lparr> intersectionId_p = 10, waitingCount_p = 5 \<rparr> \<rparr>]"
    by simp
  from h1 a h2 h3 b show ?thesis by blast
qed

section \<open>Properties of the F11 controller loop\<close>

subsection \<open>The reads of the coordination pipe and what each part of a round does\<close>

lemma read_coord_ready:
  "readCoord S = (t, m) # rest \<Longrightarrow> t \<le> clock S \<Longrightarrow>
     read_coord S = (Some m, S\<lparr>coordReads := coordReads S @ [clock S], readCoord := rest\<rparr>)"
  by (simp add: read_coord_def Let_def)

lemma read_coord_nothing:
  "no_arrival_by S (clock S) \<Longrightarrow>
     read_coord S = (None, S\<lparr>coordReads := coordReads S @ [clock S]\<rparr>)"
  by (auto simp: read_coord_def no_arrival_by_def Let_def split: list.splits)

lemma read_coord_log:
  "coordReads (snd (read_coord S)) = coordReads S @ [clock S]"
  by (simp add: read_coord_def Let_def split: list.splits)

lemma check_emergency_log:
  "coordReads (check_emergency S) = coordReads S @ [clock S]"
  by (simp add: check_emergency_def read_coord_def Let_def write_frame_def usleep_def
      split: list.splits)

lemma check_emergency_forced:
  assumes "readCoord S = (t, m) # rest" and "t \<le> clock S"
    and "type_c m = EMERGENCY_APPROACHING"
  shows "check_emergency S =
           S\<lparr>clock := clock S + 5000000, lightState := GREEN, emergencyMode := False,
             readCoord := rest, coordReads := coordReads S @ [clock S],
             writePipe := writePipe S @ [(clock S, light_frame 11 GREEN)]\<rparr>"
  using assms
  by (simp add: check_emergency_def read_coord_ready write_frame_def usleep_def Let_def)

lemma check_emergency_nothing:
  assumes "no_arrival_by S (clock S)"
  shows "check_emergency S = S\<lparr>coordReads := coordReads S @ [clock S]\<rparr>"
  using assms by (simp add: check_emergency_def read_coord_nothing)

lemma kept_refl: "kept S S"
  by (simp add: kept_def)

lemma kept_trans: "kept S S' \<Longrightarrow> kept S' S'' \<Longrightarrow> kept S S''"
  by (simp add: kept_def)

lemma kept_usleep: "kept S (usleep n S)"
  by (simp add: kept_def usleep_def)

lemma kept_spawnVehicle: "kept S (spawnVehicle ty S)"
  by (simp add: kept_def spawnVehicle_def Let_def)

lemma kept_spawnLocalVehicle: "kept S (spawnLocalVehicle ty S)"
  by (simp add: kept_def spawnLocalVehicle_def Let_def)

lemma kept_rand: "kept S (snd (rand S))"
  by (simp add: kept_def rand_def)

lemma kept_spawn_cars: "kept S (spawn_cars n S)"
proof (induction n arbitrary: S)
  case 0
  show ?case by (simp add: kept_refl)
next
  case (Suc n)
  have "kept S (usleep 200000 (spawnVehicle CAR S))"
    by (rule kept_trans [OF kept_spawnVehicle kept_usleep])
  from kept_trans [OF this Suc] show ?case by simp
qed

lemma kept_spawn_gridlock_right: "kept S (spawn_gridlock_right n S)"
proof (induction n arbitrary: S)
  case 0
  show ?case by (simp add: kept_refl)
next
  case (Suc n)
  obtain r S1 where r: "rand S = (r, S1)" by (cases "rand S")
  then have "kept S S1" using kept_rand [of S] by simp
  then have "kept S (usleep 100000 (spawnVehicle (VehicleType_of (r mod 4 + 2)) S1))"
    by (blast intro: kept_trans kept_spawnVehicle kept_usleep)
  from kept_trans [OF this Suc] show ?case by (simp add: r)
qed

lemma kept_spawn_gridlock_left: "kept S (spawn_gridlock_left n S)"
proof (induction n arbitrary: S)
  case 0
  show ?case by (simp add: kept_refl)
next
  case (Suc n)
  obtain r S1 where r: "rand S = (r, S1)" by (cases "rand S")
  then have "kept S S1" using kept_rand [of S] by simp
  then have "kept S (usleep 100000 (spawnLocalVehicle (VehicleType_of (r mod 4 + 2)) S1))"
    by (blast intro: kept_trans kept_spawnLocalVehicle kept_usleep)
  from kept_trans [OF this Suc] show ?case by (simp add: r)
qed

lemma kept_read_cmd: "kept S (snd (read_cmd S))"
  by (simp add: kept_def read_cmd_def split: list.splits)

lemma kept_check_commands: "kept S (check_commands S)"
proof -
  obtain c S1 where r: "read_cmd S = (c, S1)" by (cases "read_cmd S")
  then have k: "kept S S1" using kept_read_cmd [of S] by simp
  have "kept S1 (spawn_gridlock_left 3 (spawn_gridlock_right 5 S1))"
    by (rule kept_trans [OF kept_spawn_gridlock_right kept_spawn_gridlock_left])
  with k have "kept S (spawn_gridlock_left 3 (spawn_gridlock_right 5 S1))"
    and "kept S (spawn_cars 16 S1)"
    by (blast intro: kept_trans kept_spawn_cars)+
  with k r show ?thesis
    by (cases c) (simp_all add: check_commands_def)
qed

lemma slice_ends_Suc:
  "slice_ends c (Suc k) = (c + 500000) # slice_ends (c + 500000) k"
proof -
  have "[0..<Suc k] = 0 # map Suc [0..<k]"
    by (simp add: upt_conv_Cons map_Suc_upt del: upt_Suc)
  then show ?thesis
    by (simp add: slice_ends_def comp_def del: upt_Suc)
qed

lemma red_ticks_quiet:
  "no_arrival_by S (clock S + n * 500000) \<Longrightarrow>
     red_ticks n S =
       S\<lparr>clock := clock S + n * 500000,
         coordReads := coordReads S @ slice_ends (clock S) n\<rparr>"
proof (induction n arbitrary: S)
  case 0
  then show ?case by (simp add: slice_ends_def)
next
  case (Suc n)
  let ?S1 = "usleep 500000 S"
  let ?S2 = "?S1\<lparr>coordReads := coordReads ?S1 @ [clock ?S1]\<rparr>"
  from Suc.prems have na: "no_arrival_by ?S1 (clock ?S1)"
    by (auto simp: no_arrival_by_def usleep_def split: list.splits)
  then have rd: "read_coord ?S1 = (None, ?S2)" by (rule read_coord_nothing)
  from Suc.prems have "no_arrival_by ?S2 (clock ?S2 + n * 500000)"
    by (auto simp: no_arrival_by_def usleep_def split: list.splits)
  from Suc.IH [OF this] rd show ?case
    by (simp add: usleep_def slice_ends_Suc)
qed

lemma red_ticks_forced_at:
  assumes "k < n" and "readCoord S = (t, m) # rest"
    and "k = 0 \<or> clock S + k * 500000 < t" and "t \<le> clock S + (k + 1) * 500000"
    and "type_c m = EMERGENCY_APPROACHING"
  shows "red_ticks n S =
           S\<lparr>clock := clock S + (k + 1) * 500000 + 5000000, lightState := GREEN,
             readCoord := rest,
             coordReads := coordReads S @ slice_ends (clock S) (Suc k),
             writePipe := writePipe S @ [(clock S + (k + 1) * 500000, light_frame 11 GREEN)]\<rparr>"
  using assms
proof (induction k arbitrary: S n)
  case 0
  then obtain n' where n: "n = Suc n'" by (cases n) auto
  let ?S1 = "usleep 500000 S"
  have "read_coord ?S1 =
          (Some m, ?S1\<lparr>coordReads := coordReads ?S1 @ [clock ?S1], readCoord := rest\<rparr>)"
    using 0 by (intro read_coord_ready [of _ t]) (simp_all add: usleep_def)
  then show ?case
    using 0 by (simp add: n write_frame_def usleep_def slice_ends_def)
next
  case (Suc k)
  then obtain n' where n: "n = Suc n'" and kn: "k < n'" by (cases n) auto
  let ?S1 = "usleep 500000 S"
  let ?S2 = "?S1\<lparr>coordReads := coordReads ?S1 @ [clock ?S1]\<rparr>"
  from Suc.prems have na: "no_arrival_by ?S1 (clock ?S1)"
    by (auto simp: no_arrival_by_def usleep_def)
  then have rd: "read_coord ?S1 = (None, ?S2)" by (rule read_coord_nothing)
  have "red_ticks n' ?S2 =
           ?S2\<lparr>clock := clock ?S2 + (k + 1) * 500000 + 5000000, lightState := GREEN,
             readCoord := rest,
             coordReads := coordReads ?S2 @ slice_ends (clock ?S2) (Suc k),
             writePipe := writePipe ?S2 @ [(clock ?S2 + (k + 1) * 500000, light_frame 11 GREEN)]\<rparr>"
    using Suc.prems kn by (intro Suc.IH) (auto simp: usleep_def)
  with rd show ?case
    by (simp add: n usleep_def slice_ends_Suc [of "clock S" "Suc k"] add.assoc del: slice_ends_Suc)
qed

lemma green_ticks_clock:
  "green_ticks n S = S\<lparr>clock := clock S + n * 500000\<rparr>"
  by (induction n arbitrary: S) (simp_all add: usleep_def)

lemma green_phase_effect:
  "green_phase S =
     S\<lparr>clock := clock S + 3000000, lightState := GREEN,
       writePipe := writePipe S @
         [(clock S, light_frame 11 GREEN),
          (clock S + 3000000, parking_update_frame 11 (lot_f S))]\<rparr>"
  by (simp add: green_phase_def green_ticks_clock write_frame_def Let_def)

lemma round_quiet:
  assumes "no_arrival_by S (clock S + 3000000)"
  shows "green_phase (red_phase S) =
           S\<lparr>clock := clock S + 6000000, lightState := GREEN,
             coordReads := coordReads S @ slice_ends (clock S) 6,
             writePipe := writePipe S @
               [(clock S, light_frame 11 RED),
                (clock S + 3000000, light_frame 11 GREEN),
                (clock S + 6000000, parking_update_frame 11 (lot_f S))]\<rparr>"
proof -
  let ?R = "write_frame (light_frame 11 RED) (S\<lparr>lightState := RED\<rparr>)"
  have "no_arrival_by ?R (clock ?R + 6 * 500000)"
    using assms by (simp add: no_arrival_by_def write_frame_def)
  from red_ticks_quiet [OF this] show ?thesis
    by (simp add: red_phase_def green_phase_effect write_frame_def)
qed

lemma round_forced:
  assumes "k < 6" and "readCoord S = (t, m) # rest"
    and "k = 0 \<or> clock S + k * 500000 < t" and "t \<le> clock S + (k + 1) * 500000"
    and "type_c m = EMERGENCY_APPROACHING"
  shows "green_phase (red_phase S) =
           S\<lparr>clock := clock S + (k + 1) * 500000 + 8000000, lightState := GREEN,
             readCoord := rest,
             coordReads := coordReads S @ slice_ends (clock S) (Suc k),
             writePipe := writePipe S @
               [(clock S, light_frame 11 RED),
                (clock S + (k + 1) * 500000, light_frame 11 GREEN),
                (clock S + (k + 1) * 500000 + 5000000, light_frame 11 GREEN),
                (clock S + (k + 1) * 500000 + 8000000, parking_update_frame 11 (lot_f S))]\<rparr>"
proof -
  let ?R = "write_frame (light_frame 11 RED) (S\<lparr>lightState := RED\<rparr>)"
  have "red_ticks 6 ?R =
           ?R\<lparr>clock := clock ?R + (k + 1) * 500000 + 5000000, lightState := GREEN,
             readCoord := rest,
             coordReads := coordReads ?R @ slice_ends (clock ?R) (Suc k),
             writePipe := writePipe ?R @ [(clock ?R + (k + 1) * 500000, light_frame 11 GREEN)]\<rparr>"
    using assms by (intro red_ticks_forced_at [of k 6 _ t m rest]) (simp_all add: write_frame_def)
  then show ?thesis
    by (simp add: red_phase_def green_phase_effect write_frame_def)
qed

lemma f11_iteration_unfold:
  assumes "\<not> emergencyMode (check_emergency S)"
  shows "f11_iteration S = green_phase (red_phase (check_commands (check_emergency S)))"
proof -
  have "emergencyMode (check_commands (check_emergency S)) = emergencyMode (check_emergency S)"
    using kept_check_commands [of "check_emergency S"] by (simp add: kept_def)
  with assms show ?thesis by (simp add: f11_iteration_def Let_def)
qed

lemma check_commands_none:
  "cmdPipe S = [] \<Longrightarrow> check_commands S = S"
  by (simp add: check_commands_def read_cmd_def)

lemma f11_iteration_two_signals:
  assumes pipe: "readCoord S = (ta, ma) # (tb, mb) # later"
    and ta: "ta \<le> clock S" and tb: "tb \<le> clock S + 5500000"
    and ma: "type_c ma = EMERGENCY_APPROACHING" and mb: "type_c mb = EMERGENCY_APPROACHING"
    and cmds: "cmdPipe S = []"
  shows "f11_iteration S =
           S\<lparr>clock := clock S + 13500000, lightState := GREEN, emergencyMode := False,
             readCoord := later,
             coordReads := coordReads S @ [clock S, clock S + 5500000],
             writePipe := writePipe S @
               [(clock S, light_frame 11 GREEN),
                (clock S + 5000000, light_frame 11 RED),
                (clock S + 5500000, light_frame 11 GREEN),
                (clock S + 10500000, light_frame 11 GREEN),
                (clock S + 13500000, parking_update_frame 11 (lot_f S))]\<rparr>"
proof -
  define S1 where "S1 = check_emergency S"
  have S1: "S1 = S\<lparr>clock := clock S + 5000000, lightState := GREEN, emergencyMode := False,
             readCoord := (tb, mb) # later, coordReads := coordReads S @ [clock S],
             writePipe := writePipe S @ [(clock S, light_frame 11 GREEN)]\<rparr>"
    unfolding S1_def using pipe ta ma by (rule check_emergency_forced)
  have c: "check_commands S1 = S1"
    using cmds by (simp add: S1 check_commands_none)
  have "\<not> emergencyMode (check_emergency S)"
    using S1 by (simp add: S1_def)
  then have "f11_iteration S = green_phase (red_phase S1)"
    by (simp add: f11_iteration_unfold S1_def [symmetric] c)
  also have "\<dots> = S1\<lparr>clock := clock S1 + (0 + 1) * 500000 + 8000000, lightState := GREEN,
             readCoord := later,
             coordReads := coordReads S1 @ slice_ends (clock S1) (Suc 0),
             writePipe := writePipe S1 @
               [(clock S1, light_frame 11 RED),
                (clock S1 + (0 + 1) * 500000, light_frame 11 GREEN),
                (clock S1 + (0 + 1) * 500000 + 5000000, light_frame 11 GREEN),
                (clock S1 + (0 + 1) * 500000 + 8000000, parking_update_frame 11 (lot_f S1))]\<rparr>"
    using tb mb by (intro round_forced [of 0 _ tb mb later]) (simp_all add: S1)
  also have "\<dots> = S\<lparr>clock := clock S + 13500000, lightState := GREEN, emergencyMode := False,
             readCoord := later,
             coordReads := coordReads S @ [clock S, clock S + 5500000],
             writePipe := writePipe S @
               [(clock S, light_frame 11 GREEN),
                (clock S + 5000000, light_frame 11 RED),
                (clock S + 5500000, light_frame 11 GREEN),
                (clock S + 10500000, light_frame 11 GREEN),
                (clock S + 13500000, parking_update_frame 11 (lot_f S))]\<rparr>"
    by (simp add: S1 slice_ends_def)
  finally show ?thesis .
qed

lemma two_signals_eval:
  "f11_iteration f11_two_signals =
     f11_two_signals\<lparr>clock := 13500000, lightState := GREEN, emergencyMode := False,
       readCoord := [], coordReads := [0, 5500000],
       writePipe :=
         [(0, light_frame 11 GREEN),
          (5000000, light_frame 11 RED),
          (5500000, light_frame 11 GREEN),
          (10500000, light_frame 11 GREEN),
          (13500000, parking_update_frame 11 ParkingLot_init)]\<rparr>"
  using f11_iteration_two_signals [of f11_two_signals 0 emergency_msg 1000000 emergency_msg "[]"]
  by (simp add: f11_two_signals_def emergency_msg_def)


lemma slice_ends_six:
  "slice_ends c 6 = [c + 500000, c + 1000000, c + 1500000, c + 2000000, c + 2500000, c + 3000000]"
proof -
  have six: "(6::nat) = Suc (Suc (Suc (Suc (Suc (Suc 0)))))" by simp
  show ?thesis unfolding six by (simp add: slice_ends_Suc) (simp add: slice_ends_def)
qed

lemma one_signal_top:
  "check_commands (check_emergency f11_one_signal) =
     f11_one_signal\<lparr>clock := 5000000, lightState := GREEN, emergencyMode := False,
       readCoord := [], coordReads := [0], cmdPipe := [],
       writePipe := [(0, light_frame 11 GREEN)]\<rparr>"
proof -
  have "check_emergency f11_one_signal =
     f11_one_signal\<lparr>clock := clock f11_one_signal + 5000000, lightState := GREEN,
       emergencyMode := False, readCoord := [],
       coordReads := coordReads f11_one_signal @ [clock f11_one_signal],
       writePipe := writePipe f11_one_signal @ [(clock f11_one_signal, light_frame 11 GREEN)]\<rparr>"
    by (rule check_emergency_forced [of _ 0 emergency_msg])
       (simp_all add: f11_one_signal_def emergency_msg_def)
  then show ?thesis
    by (simp add: check_commands_def read_cmd_def f11_one_signal_def)
qed


lemma read_coord_clock: "clock (snd (read_coord S)) = clock S"
  by (simp add: read_coord_def Let_def split: list.splits)

lemma red_ticks_log:
  "\<exists>k\<le>n. coordReads (red_ticks n S) = coordReads S @ slice_ends (clock S) k"
proof (induction n arbitrary: S)
  case 0
  then show ?case by (simp add: slice_ends_def)
next
  case (Suc n)
  obtain x S2 where r: "read_coord (usleep 500000 S) = (x, S2)"
    by (cases "read_coord (usleep 500000 S)")
  have c: "clock S2 = clock S + 500000"
    using read_coord_clock [of "usleep 500000 S"] unfolding r by (simp add: usleep_def)
  have l: "coordReads S2 = coordReads S @ [clock S + 500000]"
    using read_coord_log [of "usleep 500000 S"] unfolding r by (simp add: usleep_def)
  from Suc.IH [of S2] obtain k where k: "k \<le> n"
    "coordReads (red_ticks n S2) = coordReads S2 @ slice_ends (clock S2) k"
    by blast
  have go: "coordReads (red_ticks n S2) = coordReads S @ slice_ends (clock S) (Suc k)"
    by (simp add: k c l slice_ends_Suc)
  have stop: "coordReads S2 = coordReads S @ slice_ends (clock S) (Suc 0)"
    by (simp add: l slice_ends_def)
  show ?case
  proof (cases x)
    case None
    with r go k(1) show ?thesis by (intro exI [of _ "Suc k"]) simp
  next
    case (Some m)
    show ?thesis
    proof (cases "type_c m = EMERGENCY_APPROACHING")
      case True
      with r Some stop show ?thesis
        by (intro exI [of _ "Suc 0"]) (simp add: usleep_def write_frame_def)
    next
      case False
      with r Some go k(1) show ?thesis by (intro exI [of _ "Suc k"]) simp
    qed
  qed
qed

lemma f11_iteration_log:
  "\<exists>k\<le>6. coordReads (f11_iteration S) =
      coordReads S @ clock S # slice_ends (clock (check_commands (check_emergency S))) k"
proof -
  let ?C = "check_commands (check_emergency S)"
  have kc: "kept (check_emergency S) ?C" by (rule kept_check_commands)
  then have top: "coordReads ?C = coordReads S @ [clock S]"
    by (simp add: kept_def check_emergency_log)
  show ?thesis
  proof (cases "emergencyMode ?C")
    case True
    then have "f11_iteration S = ?C" by (simp add: f11_iteration_def Let_def)
    then show ?thesis by (intro exI [of _ 0]) (simp add: top slice_ends_def)
  next
    case False
    let ?R = "write_frame (light_frame 11 RED) (?C\<lparr>lightState := RED\<rparr>)"
    from red_ticks_log [of 6 ?R] obtain k where k: "k \<le> 6"
      "coordReads (red_ticks 6 ?R) = coordReads ?R @ slice_ends (clock ?R) k"
      by blast
    from False have "f11_iteration S = green_phase (red_ticks 6 ?R)"
      by (simp add: f11_iteration_def Let_def red_phase_def)
    then have "coordReads (f11_iteration S) = coordReads (red_ticks 6 ?R)"
      by (simp add: green_phase_effect)
    with k show ?thesis
      by (intro exI [of _ k]) (simp add: top write_frame_def)
  qed
qed

subsection \<open>C6: emergency preemption\<close>

text \<open>
  C6 as stated fails: F11 enters a round at time 0 with one emergency signal in its pipe;
  a second one arrives at 1 s, during the hold from 0 s to 5 s. It is not dropped: it
  stays in the pipe, the pipe is not read during the hold (the reads of the round are at
  0 s and at 5.5 s), the first read of the RED phase at 5.5 s returns it, and F11 forces
  GREEN again and sleeps another 5 s.
\<close>

theorem emergency_preemption_counterexample:
  "readCoord f11_two_signals = [(0, emergency_msg), (1000000, emergency_msg)] \<and>
   clock f11_two_signals = 0 \<and>
   writePipe (f11_iteration f11_two_signals) =
     [(0, light_frame 11 GREEN),
      (5000000, light_frame 11 RED),
      (5500000, light_frame 11 GREEN),
      (10500000, light_frame 11 GREEN),
      (13500000, parking_update_frame 11 ParkingLot_init)] \<and>
   coordReads (f11_iteration f11_two_signals) = [0, 5500000] \<and>
   readCoord (f11_iteration f11_two_signals) = []"
  by (simp add: two_signals_eval) (simp add: f11_two_signals_def)


text \<open>
  C6, amended: F11 reads its coordination pipe at the top of each round of its loop and
  after each half-second slice of a RED phase, nowhere else: the top of the round adds
  one read to the log, the command check none, and a round, whatever the pipes hold,
  adds to the log the read at its top and the reads at the ends of the RED slices it
  went through, at most six. When such a read returns \<open>EMERGENCY_APPROACHING\<close>, F11
  sets its light GREEN at that instant, writes the GREEN frame and sleeps 5 s before
  anything else. After a hold begun at the top of the
  round, as after a top read that found nothing, the round goes on with the command
  check and the RED phase: if no signal can be read during that RED phase, the round is
  the normal one, RED frame, six slices, GREEN frame after 3 s, parking frame after 3 s
  more. A hold begun after slice \<open>j\<close> of the RED phase ends the RED phase there and is
  followed by the normal 3 s GREEN phase. A hold consumes one signal only: a signal
  behind it in the pipe, or arriving during the hold, is returned by the next read and
  starts a hold of its own.
\<close>

theorem emergency_preemption:
  "coordReads (check_emergency S) = coordReads S @ [clock S] \<and>
   kept S (check_commands S) \<and>
   (readCoord S = (t, m) # rest \<and> t \<le> clock S \<and> type_c m = EMERGENCY_APPROACHING \<longrightarrow>
      check_emergency S =
        S\<lparr>clock := clock S + 5000000, lightState := GREEN, emergencyMode := False,
          readCoord := rest, coordReads := coordReads S @ [clock S],
          writePipe := writePipe S @ [(clock S, light_frame 11 GREEN)]\<rparr>) \<and>
   (no_arrival_by S (clock S) \<longrightarrow>
      check_emergency S = S\<lparr>coordReads := coordReads S @ [clock S]\<rparr>) \<and>
   (k < n \<and> readCoord S = (t, m) # rest \<and> (k = 0 \<or> clock S + k * 500000 < t) \<and>
    t \<le> clock S + (k + 1) * 500000 \<and> type_c m = EMERGENCY_APPROACHING \<longrightarrow>
      red_ticks n S =
        S\<lparr>clock := clock S + (k + 1) * 500000 + 5000000, lightState := GREEN,
          readCoord := rest,
          coordReads := coordReads S @ slice_ends (clock S) (Suc k),
          writePipe := writePipe S @ [(clock S + (k + 1) * 500000, light_frame 11 GREEN)]\<rparr>) \<and>
   (\<not> emergencyMode (check_emergency S) \<and>
    no_arrival_by (check_commands (check_emergency S))
      (clock (check_commands (check_emergency S)) + 3000000) \<longrightarrow>
      f11_iteration S =
        (check_commands (check_emergency S))
          \<lparr>clock := clock (check_commands (check_emergency S)) + 6000000, lightState := GREEN,
           coordReads := coordReads S @
             clock S # slice_ends (clock (check_commands (check_emergency S))) 6,
           writePipe := writePipe (check_emergency S) @
             [(clock (check_commands (check_emergency S)), light_frame 11 RED),
              (clock (check_commands (check_emergency S)) + 3000000, light_frame 11 GREEN),
              (clock (check_commands (check_emergency S)) + 6000000,
               parking_update_frame 11 (lot_f S))]\<rparr>) \<and>
   (\<not> emergencyMode (check_emergency S) \<and> j < 6 \<and>
    readCoord (check_commands (check_emergency S)) = (u, mu) # after \<and>
    (j = 0 \<or> clock (check_commands (check_emergency S)) + j * 500000 < u) \<and>
    u \<le> clock (check_commands (check_emergency S)) + (j + 1) * 500000 \<and>
    type_c mu = EMERGENCY_APPROACHING \<longrightarrow>
      f11_iteration S =
        (check_commands (check_emergency S))
          \<lparr>clock := clock (check_commands (check_emergency S)) + (j + 1) * 500000 + 8000000,
           lightState := GREEN, readCoord := after,
           coordReads := coordReads S @
             clock S # slice_ends (clock (check_commands (check_emergency S))) (Suc j),
           writePipe := writePipe (check_emergency S) @
             [(clock (check_commands (check_emergency S)), light_frame 11 RED),
              (clock (check_commands (check_emergency S)) + (j + 1) * 500000,
               light_frame 11 GREEN),
              (clock (check_commands (check_emergency S)) + (j + 1) * 500000 + 5000000,
               light_frame 11 GREEN),
              (clock (check_commands (check_emergency S)) + (j + 1) * 500000 + 8000000,
               parking_update_frame 11 (lot_f S))]\<rparr>) \<and>
   (readCoord S = (ta, ma) # (tb, mb) # later \<and> ta \<le> clock S \<and> tb \<le> clock S + 5500000 \<and>
    type_c ma = EMERGENCY_APPROACHING \<and> type_c mb = EMERGENCY_APPROACHING \<and> cmdPipe S = [] \<longrightarrow>
      f11_iteration S =
        S\<lparr>clock := clock S + 13500000, lightState := GREEN, emergencyMode := False,
          readCoord := later,
          coordReads := coordReads S @ [clock S, clock S + 5500000],
          writePipe := writePipe S @
            [(clock S, light_frame 11 GREEN),
             (clock S + 5000000, light_frame 11 RED),
             (clock S + 5500000, light_frame 11 GREEN),
             (clock S + 10500000, light_frame 11 GREEN),
             (clock S + 13500000, parking_update_frame 11 (lot_f S))]\<rparr>) \<and>
   (\<exists>k\<le>6. coordReads (f11_iteration S) =
      coordReads S @ clock S # slice_ends (clock (check_commands (check_emergency S))) k)"
proof -
  let ?E = "check_emergency S"
  let ?C = "check_commands ?E"
  have k: "kept ?E ?C" by (rule kept_check_commands)
  have lotE: "lot_f ?E = lot_f S"
    by (simp add: check_emergency_def read_coord_def Let_def write_frame_def usleep_def
        split: list.splits)
  have kf: "coordReads ?C = coordReads S @ [clock S]" "writePipe ?C = writePipe ?E"
    "lot_f ?C = lot_f S"
    using k lotE by (simp_all add: kept_def check_emergency_log)
  have A: "coordReads ?E = coordReads S @ [clock S]" by (rule check_emergency_log)
  have B: "kept S (check_commands S)" by (rule kept_check_commands)
  have C: "readCoord S = (t, m) # rest \<and> t \<le> clock S \<and> type_c m = EMERGENCY_APPROACHING \<longrightarrow>
      check_emergency S =
        S\<lparr>clock := clock S + 5000000, lightState := GREEN, emergencyMode := False,
          readCoord := rest, coordReads := coordReads S @ [clock S],
          writePipe := writePipe S @ [(clock S, light_frame 11 GREEN)]\<rparr>"
    by (auto intro: check_emergency_forced)
  have D: "no_arrival_by S (clock S) \<longrightarrow>
      check_emergency S = S\<lparr>coordReads := coordReads S @ [clock S]\<rparr>"
    by (auto intro: check_emergency_nothing)
  have E: "k < n \<and> readCoord S = (t, m) # rest \<and> (k = 0 \<or> clock S + k * 500000 < t) \<and>
    t \<le> clock S + (k + 1) * 500000 \<and> type_c m = EMERGENCY_APPROACHING \<longrightarrow>
      red_ticks n S =
        S\<lparr>clock := clock S + (k + 1) * 500000 + 5000000, lightState := GREEN,
          readCoord := rest,
          coordReads := coordReads S @ slice_ends (clock S) (Suc k),
          writePipe := writePipe S @ [(clock S + (k + 1) * 500000, light_frame 11 GREEN)]\<rparr>"
  proof
    assume a: "k < n \<and> readCoord S = (t, m) # rest \<and> (k = 0 \<or> clock S + k * 500000 < t) \<and>
      t \<le> clock S + (k + 1) * 500000 \<and> type_c m = EMERGENCY_APPROACHING"
    show "red_ticks n S =
        S\<lparr>clock := clock S + (k + 1) * 500000 + 5000000, lightState := GREEN,
          readCoord := rest,
          coordReads := coordReads S @ slice_ends (clock S) (Suc k),
          writePipe := writePipe S @ [(clock S + (k + 1) * 500000, light_frame 11 GREEN)]\<rparr>"
      by (rule red_ticks_forced_at [of k n S t m rest]) (use a in blast)+
  qed
  have F: "\<not> emergencyMode ?E \<and> no_arrival_by ?C (clock ?C + 3000000) \<longrightarrow>
      f11_iteration S =
        ?C\<lparr>clock := clock ?C + 6000000, lightState := GREEN,
           coordReads := coordReads S @ clock S # slice_ends (clock ?C) 6,
           writePipe := writePipe ?E @
             [(clock ?C, light_frame 11 RED),
              (clock ?C + 3000000, light_frame 11 GREEN),
              (clock ?C + 6000000, parking_update_frame 11 (lot_f S))]\<rparr>"
  proof
    assume a: "\<not> emergencyMode ?E \<and> no_arrival_by ?C (clock ?C + 3000000)"
    then have "f11_iteration S = green_phase (red_phase ?C)" by (simp add: f11_iteration_unfold)
    also from a have "\<dots> = ?C\<lparr>clock := clock ?C + 6000000, lightState := GREEN,
             coordReads := coordReads ?C @ slice_ends (clock ?C) 6,
             writePipe := writePipe ?C @
               [(clock ?C, light_frame 11 RED),
                (clock ?C + 3000000, light_frame 11 GREEN),
                (clock ?C + 6000000, parking_update_frame 11 (lot_f ?C))]\<rparr>"
      by (intro round_quiet) simp
    finally show "f11_iteration S =
        ?C\<lparr>clock := clock ?C + 6000000, lightState := GREEN,
           coordReads := coordReads S @ clock S # slice_ends (clock ?C) 6,
           writePipe := writePipe ?E @
             [(clock ?C, light_frame 11 RED),
              (clock ?C + 3000000, light_frame 11 GREEN),
              (clock ?C + 6000000, parking_update_frame 11 (lot_f S))]\<rparr>"
      by (simp add: kf)
  qed
  have G: "\<not> emergencyMode ?E \<and> j < 6 \<and> readCoord ?C = (u, mu) # after \<and>
    (j = 0 \<or> clock ?C + j * 500000 < u) \<and> u \<le> clock ?C + (j + 1) * 500000 \<and>
    type_c mu = EMERGENCY_APPROACHING \<longrightarrow>
      f11_iteration S =
        ?C\<lparr>clock := clock ?C + (j + 1) * 500000 + 8000000,
           lightState := GREEN, readCoord := after,
           coordReads := coordReads S @ clock S # slice_ends (clock ?C) (Suc j),
           writePipe := writePipe ?E @
             [(clock ?C, light_frame 11 RED),
              (clock ?C + (j + 1) * 500000, light_frame 11 GREEN),
              (clock ?C + (j + 1) * 500000 + 5000000, light_frame 11 GREEN),
              (clock ?C + (j + 1) * 500000 + 8000000, parking_update_frame 11 (lot_f S))]\<rparr>"
  proof
    assume a: "\<not> emergencyMode ?E \<and> j < 6 \<and> readCoord ?C = (u, mu) # after \<and>
      (j = 0 \<or> clock ?C + j * 500000 < u) \<and> u \<le> clock ?C + (j + 1) * 500000 \<and>
      type_c mu = EMERGENCY_APPROACHING"
    then have "f11_iteration S = green_phase (red_phase ?C)" by (simp add: f11_iteration_unfold)
    also from a have "\<dots> = ?C\<lparr>clock := clock ?C + (j + 1) * 500000 + 8000000, lightState := GREEN,
             readCoord := after,
             coordReads := coordReads ?C @ slice_ends (clock ?C) (Suc j),
             writePipe := writePipe ?C @
               [(clock ?C, light_frame 11 RED),
                (clock ?C + (j + 1) * 500000, light_frame 11 GREEN),
                (clock ?C + (j + 1) * 500000 + 5000000, light_frame 11 GREEN),
                (clock ?C + (j + 1) * 500000 + 8000000, parking_update_frame 11 (lot_f ?C))]\<rparr>"
      by (intro round_forced [of j _ u mu after]) simp_all
    finally show "f11_iteration S =
        ?C\<lparr>clock := clock ?C + (j + 1) * 500000 + 8000000,
           lightState := GREEN, readCoord := after,
           coordReads := coordReads S @ clock S # slice_ends (clock ?C) (Suc j),
           writePipe := writePipe ?E @
             [(clock ?C, light_frame 11 RED),
              (clock ?C + (j + 1) * 500000, light_frame 11 GREEN),
              (clock ?C + (j + 1) * 500000 + 5000000, light_frame 11 GREEN),
              (clock ?C + (j + 1) * 500000 + 8000000, parking_update_frame 11 (lot_f S))]\<rparr>"
      by (simp add: kf)
  qed
  have H: "readCoord S = (ta, ma) # (tb, mb) # later \<and> ta \<le> clock S \<and> tb \<le> clock S + 5500000 \<and>
    type_c ma = EMERGENCY_APPROACHING \<and> type_c mb = EMERGENCY_APPROACHING \<and> cmdPipe S = [] \<longrightarrow>
      f11_iteration S =
        S\<lparr>clock := clock S + 13500000, lightState := GREEN, emergencyMode := False,
          readCoord := later,
          coordReads := coordReads S @ [clock S, clock S + 5500000],
          writePipe := writePipe S @
            [(clock S, light_frame 11 GREEN),
             (clock S + 5000000, light_frame 11 RED),
             (clock S + 5500000, light_frame 11 GREEN),
             (clock S + 10500000, light_frame 11 GREEN),
             (clock S + 13500000, parking_update_frame 11 (lot_f S))]\<rparr>"
    by (auto intro!: f11_iteration_two_signals)
  have I: "\<exists>k\<le>6. coordReads (f11_iteration S) =
      coordReads S @ clock S # slice_ends (clock (check_commands (check_emergency S))) k"
    by (rule f11_iteration_log)
  from A B C D E F G H I show ?thesis by blast
qed

theorem emergency_preemption_witness:
  "check_emergency f11_two_signals =
     f11_two_signals\<lparr>clock := 5000000, lightState := GREEN, emergencyMode := False,
       readCoord := [(1000000, emergency_msg)], coordReads := [0],
       writePipe := [(0, light_frame 11 GREEN)]\<rparr> \<and>
   check_emergency (f11_one_signal\<lparr>readCoord := []\<rparr>) =
     f11_one_signal\<lparr>readCoord := [], coordReads := [0]\<rparr> \<and>
   red_ticks 6 f11_two_signals =
     f11_two_signals\<lparr>clock := 5500000, lightState := GREEN,
       readCoord := [(1000000, emergency_msg)], coordReads := [500000],
       writePipe := [(500000, light_frame 11 GREEN)]\<rparr> \<and>
   f11_iteration f11_one_signal =
     f11_one_signal\<lparr>clock := 11000000, lightState := GREEN, emergencyMode := False,
       readCoord := [],
       coordReads := [0, 5500000, 6000000, 6500000, 7000000, 7500000, 8000000],
       cmdPipe := [],
       writePipe :=
         [(0, light_frame 11 GREEN),
          (5000000, light_frame 11 RED),
          (8000000, light_frame 11 GREEN),
          (11000000, parking_update_frame 11 ParkingLot_init)]\<rparr> \<and>
   f11_iteration f11_two_signals =
     f11_two_signals\<lparr>clock := 13500000, lightState := GREEN, emergencyMode := False,
       readCoord := [], coordReads := [0, 5500000],
       writePipe :=
         [(0, light_frame 11 GREEN),
          (5000000, light_frame 11 RED),
          (5500000, light_frame 11 GREEN),
          (10500000, light_frame 11 GREEN),
          (13500000, parking_update_frame 11 ParkingLot_init)]\<rparr>"
proof -
  note two = emergency_preemption [where S = f11_two_signals and t = 0 and m = emergency_msg
      and rest = "[(1000000, emergency_msg)]" and k = 0 and n = 6
      and ta = 0 and ma = emergency_msg and tb = 1000000 and mb = emergency_msg
      and later = "[]" and j = 0 and u = 1000000 and mu = emergency_msg and after = "[]"]
  note one = emergency_preemption [where S = f11_one_signal and t = 0 and m = emergency_msg
      and rest = "[]" and k = 0 and n = 6]
  note none = emergency_preemption [where S = "f11_one_signal\<lparr>readCoord := []\<rparr>"]
  have a: "check_emergency f11_two_signals =
     f11_two_signals\<lparr>clock := 5000000, lightState := GREEN, emergencyMode := False,
       readCoord := [(1000000, emergency_msg)], coordReads := [0],
       writePipe := [(0, light_frame 11 GREEN)]\<rparr>"
    using two by (simp add: f11_two_signals_def emergency_msg_def)
  have b: "check_emergency (f11_one_signal\<lparr>readCoord := []\<rparr>) =
     f11_one_signal\<lparr>readCoord := [], coordReads := [0]\<rparr>"
    using none by (simp add: f11_one_signal_def no_arrival_by_def)
  have c: "red_ticks 6 f11_two_signals =
     f11_two_signals\<lparr>clock := 5500000, lightState := GREEN,
       readCoord := [(1000000, emergency_msg)], coordReads := [500000],
       writePipe := [(500000, light_frame 11 GREEN)]\<rparr>"
    using two by (simp add: f11_two_signals_def emergency_msg_def slice_ends_def)
  have d: "f11_iteration f11_one_signal =
     f11_one_signal\<lparr>clock := 11000000, lightState := GREEN, emergencyMode := False,
       readCoord := [],
       coordReads := [0, 5500000, 6000000, 6500000, 7000000, 7500000, 8000000],
       cmdPipe := [],
       writePipe :=
         [(0, light_frame 11 GREEN),
          (5000000, light_frame 11 RED),
          (8000000, light_frame 11 GREEN),
          (11000000, parking_update_frame 11 ParkingLot_init)]\<rparr>"
  proof -
    have e: "check_emergency f11_one_signal =
      f11_one_signal\<lparr>clock := 5000000, lightState := GREEN, emergencyMode := False,
        readCoord := [], coordReads := [0], writePipe := [(0, light_frame 11 GREEN)]\<rparr>"
      using one by (simp add: f11_one_signal_def emergency_msg_def)
    have q: "\<not> emergencyMode (check_emergency f11_one_signal)"
      by (simp add: e)
    have w: "writePipe (check_emergency f11_one_signal) = [(0, light_frame 11 GREEN)]"
      by (simp add: e)
    have r: "no_arrival_by (check_commands (check_emergency f11_one_signal))
        (clock (check_commands (check_emergency f11_one_signal)) + 3000000)"
      by (simp add: one_signal_top no_arrival_by_def)
    from one q r have "f11_iteration f11_one_signal =
        (check_commands (check_emergency f11_one_signal))
          \<lparr>clock := clock (check_commands (check_emergency f11_one_signal)) + 6000000,
           lightState := GREEN,
           coordReads := coordReads f11_one_signal @
             clock f11_one_signal #
             slice_ends (clock (check_commands (check_emergency f11_one_signal))) 6,
           writePipe := writePipe (check_emergency f11_one_signal) @
             [(clock (check_commands (check_emergency f11_one_signal)), light_frame 11 RED),
              (clock (check_commands (check_emergency f11_one_signal)) + 3000000,
               light_frame 11 GREEN),
              (clock (check_commands (check_emergency f11_one_signal)) + 6000000,
               parking_update_frame 11 (lot_f f11_one_signal))]\<rparr>"
      by blast
    then show ?thesis
      unfolding w one_signal_top slice_ends_six
      by (simp add: f11_one_signal_def)
  qed
  have f: "f11_iteration f11_two_signals =
     f11_two_signals\<lparr>clock := 13500000, lightState := GREEN, emergencyMode := False,
       readCoord := [], coordReads := [0, 5500000],
       writePipe :=
         [(0, light_frame 11 GREEN),
          (5000000, light_frame 11 RED),
          (5500000, light_frame 11 GREEN),
          (10500000, light_frame 11 GREEN),
          (13500000, parking_update_frame 11 ParkingLot_init)]\<rparr>"
    using two by (simp add: f11_two_signals_def emergency_msg_def)
  from a b c d f show ?thesis by blast
qed


section \<open>Properties of the frames and of the visualizer's pipe reader\<close>

subsection \<open>Members written and members read\<close>

declare drain.simps [simp del]

lemma unat_byte: "n < 256 \<Longrightarrow> unat (of_nat n :: byte) = n"
  by (simp add: unat_of_nat)

lemma split4:
  assumes "n < (4294967296::nat)"
  shows "n mod 256 + 256 * (n div 256 mod 256 + 256 * (n div 65536 mod 256 +
      256 * (n div 16777216 mod 256))) = n"
proof -
  have a: "n div 65536 = n div 256 div 256" by (simp add: div_mult2_eq [symmetric])
  have b: "n div 16777216 = n div 256 div 256 div 256" by (simp add: div_mult2_eq [symmetric])
  have c: "n div 256 div 256 div 256 < 256" using assms by (simp add: div_mult2_eq [symmetric] less_mult_imp_div_less)
  show ?thesis unfolding a b using c
    by simp
qed

lemma length_le32 [simp]: "length (le32 w) = 4"
  by (simp add: le32_def)

lemma of_le32_le32 [simp]: "of_le32 (le32 w) = w"
proof -
  define n where "n = unat w"
  have n: "n < 4294967296" using unsigned_less [of w, where ?'a = nat] by (simp add: n_def)
  have b: "unat (of_nat (n mod 256) :: byte) = n mod 256"
    "unat (of_nat (n div 256 mod 256) :: byte) = n div 256 mod 256"
    "unat (of_nat (n div 65536 mod 256) :: byte) = n div 65536 mod 256"
    "unat (of_nat (n div 16777216 mod 256) :: byte) = n div 16777216 mod 256"
    by (simp_all add: unat_byte)
  have "of_le32 (le32 w) = of_nat (n mod 256 + 256 * (n div 256 mod 256 +
      256 * (n div 65536 mod 256 + 256 * (n div 16777216 mod 256))))"
    unfolding le32_def of_le32_def n_def [symmetric] foldr.simps comp_def b
    by (simp only: id_apply mult_0_right add_0_right)
  also have "\<dots> = of_nat n" by (simp only: split4 [OF n])
  also have "\<dots> = w" by (simp add: n_def)
  finally show ?thesis .
qed

lemma sint_int32:
  "- 2147483648 \<le> i \<Longrightarrow> i < 2147483648 \<Longrightarrow> sint (word_of_int i :: 32 word) = i"
  by (simp add: sint_sbintrunc' signed_take_bit_int_eq_self)


lemma bool8_nonzero [simp]: "bool8 b \<noteq> 0 \<longleftrightarrow> b" "bool8 b = 0 \<longleftrightarrow> \<not> b"
  by (simp_all add: bool8_def)

lemma VehicleType_of_int_int [simp]: "VehicleType_of_int (VehicleType_int t) = Some t"
  by (cases t) (simp_all add: VehicleType_of_int_def)

lemma length_VehicleState_bytes [simp]: "length (VehicleState_bytes pad s) = 40"
  by (simp add: VehicleState_bytes_def)

lemma length_wire [simp]: "length (wire pad m) = 48"
  by (simp add: wire_def split: PipeData.splits)

lemma field32_here [simp]: "field32 0 (le32 w @ bs) = w"
  by (simp add: field32_def)

lemma field32_skip [simp]: "4 \<le> off \<Longrightarrow> field32 off (le32 w @ bs) = field32 (off - 4) bs"
  by (simp add: field32_def)

lemma field32_last [simp]: "field32 0 (le32 w) = w"
  by (simp add: field32_def)

lemma drop_four: "4 \<le> off \<Longrightarrow> drop off (a # b # c # d # bs) = drop (off - 4) bs"
proof -
  assume "4 \<le> off"
  then have "drop off (a # b # c # d # bs) = drop (off - 4) (drop 4 (a # b # c # d # bs))"
    by (simp only: drop_drop le_add_diff_inverse2)
  then show ?thesis by simp
qed

lemma field32_skip4 [simp]:
  "4 \<le> off \<Longrightarrow> field32 off (a # b # c # d # bs) = field32 (off - 4) bs"
  by (simp add: field32_def drop_four)

lemma field_bool_here [simp]: "field_bool 0 (b # bs) \<longleftrightarrow> b \<noteq> 0"
  by (simp add: field_bool_def)

lemma field_bool_skip [simp]:
  "4 \<le> off \<Longrightarrow> field_bool off (le32 w @ bs) = field_bool (off - 4) bs"
  by (simp add: field_bool_def)

lemma field_bool_Suc [simp]: "0 < off \<Longrightarrow> field_bool off (b # bs) = field_bool (off - 1) bs"
  by (simp add: field_bool_def drop_Cons')

lemma VehicleState_of_bytes:
  assumes "int32 (id_s s)" "int32 (colorR s)" "int32 (colorG s)" "int32 (colorB s)"
    "int32 (queueIndex_s s)"
  shows "VehicleState_of (VehicleState_bytes pad s) = Some s"
  using assms
  by (simp add: VehicleState_of_def VehicleState_bytes_def int32_def sint_int32)

subsection \<open>The loop on whole chunks and on fewer bytes\<close>

lemma drain_Nil [simp]: "drain side [] V = V"
  by (simp add: drain.simps)

lemma drain_chunk:
  "length c = 48 \<Longrightarrow> drain side (c @ rest) V = drain side rest (on_read side c V)"
  by (subst drain.simps) (auto simp add: sizeof_PipeMessage_def)

lemma drain_chunks:
  "\<forall>c \<in> set cs. length c = 48 \<Longrightarrow>
   drain side (concat cs @ rest) V = drain side rest (foldl (\<lambda>W c. on_read side c W) V cs)"
  by (induction cs arbitrary: V) (simp_all add: drain_chunk)

lemma on_read_short: "length buf \<noteq> 48 \<Longrightarrow> on_read side buf V = V"
  by (simp add: on_read_def sizeof_PipeMessage_def)

lemma on_read_magic: "field32 0 buf \<noteq> MSG_MAGIC \<Longrightarrow> on_read side buf V = V"
  by (simp add: on_read_def)

lemma drain_short: "length tail < 48 \<Longrightarrow> drain side tail V = V"
  by (subst drain.simps) (simp add: sizeof_PipeMessage_def on_read_short)

lemma wire_vehicle_frame:
  "wire pad (vehicle_frame parked v) =
     le32 MSG_MAGIC @ le32 0 @
     VehicleState_bytes pad
       \<lparr> id_s = id_v v, x_s = x_v v, y_s = y_v v,
         colorR = fst (getColor (type_v v)),
         colorG = fst (snd (getColor (type_v v))),
         colorB = snd (snd (getColor (type_v v))),
         isActive = active v, isParked = parked,
         isInQueue_s = isInQueue v, queueIndex_s = queueIndex v,
         isLeftParking_s = isLeftParking v, type_s = type_v v \<rparr>"
  by (simp add: wire_def vehicle_frame_magic vehicle_frame_data)

lemma id_of_VehicleState_bytes:
  "int32 (id_s s) \<Longrightarrow> sint (field32 0 (VehicleState_bytes pad s)) = id_s s"
  by (simp add: VehicleState_bytes_def int32_def sint_int32)

lemma on_read_vehicle_frame:
  assumes "int32 (id_v v)"
  shows "on_read side (wire pad (vehicle_frame parked v)) V =
     V\<lparr>vehicles := (vehicles V)(id_v v \<mapsto>
        VehicleState_bytes pad
          \<lparr> id_s = id_v v, x_s = x_v v, y_s = y_v v,
            colorR = fst (getColor (type_v v)),
            colorG = fst (snd (getColor (type_v v))),
            colorB = snd (snd (getColor (type_v v))),
            isActive = active v, isParked = parked,
            isInQueue_s = isInQueue v, queueIndex_s = queueIndex v,
            isLeftParking_s = isLeftParking v, type_s = type_v v \<rparr>)\<rparr>"
  using assms id_of_VehicleState_bytes [of
      "\<lparr> id_s = id_v v, x_s = x_v v, y_s = y_v v,
            colorR = fst (getColor (type_v v)),
            colorG = fst (snd (getColor (type_v v))),
            colorB = snd (snd (getColor (type_v v))),
            isActive = active v, isParked = parked,
            isInQueue_s = isInQueue v, queueIndex_s = queueIndex v,
            isLeftParking_s = isLeftParking v, type_s = type_v v \<rparr>" pad]
  by (simp add: on_read_def wire_vehicle_frame sizeof_PipeMessage_def)

lemma on_read_parking_frame_vehicles:
  "vehicles (on_read side (wire pad (parking_frame v L)) V) = vehicles V"
  by (simp add: on_read_def wire_def parking_frame_def split: pipe_side.splits)

lemma getColor_int32:
  "int32 (fst (getColor t))" "int32 (fst (snd (getColor t)))" "int32 (snd (snd (getColor t)))"
  by (cases t; simp add: int32_def)+

lemma stream_one: "stream pads [m] = wire (pads 0) m"
  by (simp add: stream_def enumerate_eq_zip)

lemma stream_two: "stream pads [m, n] = wire (pads 0) m @ wire (pads 1) n"
  by (simp add: stream_def enumerate_eq_zip upt_rec)

lemma stray_eval:
  "take 20 (wire zero_pad (vehicle_frame False local_car)) @
   wire zero_pad (vehicle_frame True second_car) =
     (le32 MSG_MAGIC @ le32 0 @ le32 0 @ le32 0x43700000 @ le32 f32_400 @
      le32 MSG_MAGIC @ le32 0 @ le32 1 @ le32 f32_400 @ le32 f32_400 @ le32 0 @ le32 255) @
     (le32 0 @ [1, 1, 0, 0] @ le32 (- 1) @ [0, 0, 0, 0] @ le32 3)"
  by (simp add: wire_vehicle_frame VehicleState_bytes_def local_car_def second_car_def
      zero_pad_def bool8_def)


subsection \<open>C7: a frame written and read\<close>

text \<open>
  C7 as stated fails: the pipe holds bytes, not frames. With the first 20 bytes of a
  frame for vehicle 0 in the pipe and a whole frame for vehicle 1 behind them, the first
  \<open>read\<close> takes 48 bytes, the 20 and the first 28 of the whole frame. It is not short
  and it starts with the magic, so its bytes are taken for a \<open>VehicleState\<close>:
  \<open>vehicles[0]\<close> gets the position of the truncated frame and, for \<open>colorR\<close> and
  \<open>type\<close>, the magic and the \<open>colorG\<close> of the frame behind. The second \<open>read\<close> takes
  the last 20 bytes of the whole frame and is dropped: vehicle 1 is not stored, though
  its frame was written whole and with the magic intact, and is stored when the 20
  bytes are not ahead of it.
\<close>

theorem vehicle_update_roundtrip_counterexample:
  "length (take 20 (wire zero_pad (vehicle_frame False local_car))) = 20 \<and>
   vehicles (drain PipeF10 (wire zero_pad (vehicle_frame True second_car)) Visualizer_init) 1 =
     Some (drop 8 (wire zero_pad (vehicle_frame True second_car))) \<and>
   vehicles
     (drain PipeF10
        (take 20 (wire zero_pad (vehicle_frame False local_car)) @
         wire zero_pad (vehicle_frame True second_car)) Visualizer_init) 1 = None \<and>
   vehicles
     (drain PipeF10
        (take 20 (wire zero_pad (vehicle_frame False local_car)) @
         wire zero_pad (vehicle_frame True second_car)) Visualizer_init) 0 =
     Some (take 40 (drop 8
        (take 20 (wire zero_pad (vehicle_frame False local_car)) @
         wire zero_pad (vehicle_frame True second_car)))) \<and>
   field32 4 (take 40 (drop 8
        (take 20 (wire zero_pad (vehicle_frame False local_car)) @
         wire zero_pad (vehicle_frame True second_car)))) = x_v local_car \<and>
   field32 12 (take 40 (drop 8
        (take 20 (wire zero_pad (vehicle_frame False local_car)) @
         wire zero_pad (vehicle_frame True second_car)))) = MSG_MAGIC \<and>
   field32 36 (take 40 (drop 8
        (take 20 (wire zero_pad (vehicle_frame False local_car)) @
         wire zero_pad (vehicle_frame True second_car)))) = 255 \<and>
   VehicleState_of (take 40 (drop 8
        (take 20 (wire zero_pad (vehicle_frame False local_car)) @
         wire zero_pad (vehicle_frame True second_car)))) = None"
proof -
  have i: "int32 (id_v second_car)" by (simp add: second_car_def int32_def)
  have a: "vehicles (drain PipeF10 (wire zero_pad (vehicle_frame True second_car))
      Visualizer_init) 1 = Some (drop 8 (wire zero_pad (vehicle_frame True second_car)))"
    using drain_chunk [of "wire zero_pad (vehicle_frame True second_car)" PipeF10 "[]"
        Visualizer_init]
    by (simp add: on_read_vehicle_frame [OF i]) (simp add: second_car_def wire_vehicle_frame)
  let ?c = "le32 MSG_MAGIC @ le32 0 @ le32 0 @ le32 0x43700000 @ le32 f32_400 @
      le32 MSG_MAGIC @ le32 0 @ le32 1 @ le32 f32_400 @ le32 f32_400 @ le32 0 @ le32 255"
  let ?r = "le32 0 @ [1, 1, 0, 0] @ le32 (- 1) @ [0, 0, 0, 0] @ le32 3"
  have s: "take 40 (drop 8 (?c @ ?r)) = take 40 (drop 8 ?c)" by simp
  have "drain PipeF10 (?c @ ?r) Visualizer_init = drain PipeF10 ?r (on_read PipeF10 ?c Visualizer_init)"
    by (rule drain_chunk) simp
  also have "\<dots> = on_read PipeF10 ?c Visualizer_init"
    by (rule drain_short) simp
  also have "\<dots> = Visualizer_init\<lparr>vehicles := (vehicles Visualizer_init)(0 \<mapsto> take 40 (drop 8 ?c))\<rparr>"
    by (simp add: on_read_def sizeof_PipeMessage_def)
  finally have d: "drain PipeF10
        (take 20 (wire zero_pad (vehicle_frame False local_car)) @
         wire zero_pad (vehicle_frame True second_car)) Visualizer_init =
      Visualizer_init\<lparr>vehicles := (vehicles Visualizer_init)(0 \<mapsto> take 40 (drop 8 ?c))\<rparr>"
    by (simp only: stray_eval)
  have b: "vehicles (drain PipeF10
        (take 20 (wire zero_pad (vehicle_frame False local_car)) @
         wire zero_pad (vehicle_frame True second_car)) Visualizer_init) 1 = None"
    unfolding d by (simp add: Visualizer_init_def)
  have c: "vehicles (drain PipeF10
        (take 20 (wire zero_pad (vehicle_frame False local_car)) @
         wire zero_pad (vehicle_frame True second_car)) Visualizer_init) 0 =
     Some (take 40 (drop 8
        (take 20 (wire zero_pad (vehicle_frame False local_car)) @
         wire zero_pad (vehicle_frame True second_car))))"
    unfolding d unfolding stray_eval s by simp
  have f: "field32 4 (take 40 (drop 8 ?c)) = x_v local_car"
    "field32 12 (take 40 (drop 8 ?c)) = MSG_MAGIC"
    "field32 36 (take 40 (drop 8 ?c)) = 255"
    by (simp_all add: local_car_def)
  have g: "VehicleState_of (take 40 (drop 8 ?c)) = None"
    by (simp add: VehicleState_of_def VehicleType_of_int_def)
  from a b c f g show ?thesis unfolding stray_eval s by simp
qed

text \<open>
  C7, amended: where the bytes ahead of it in the pipe are whole chunks of 48 bytes
  (frames, with the magic intact or not), a \<open>VEHICLE_UPDATE\<close> frame that \<open>sendUpdate\<close>
  wrote is read on its boundaries and leaves in \<open>vehicles[id]\<close> the state written,
  member by member; fewer than 48 bytes behind the frames of the call are read last and
  dropped. Whole chunks are handled one by one, in the order written. A chunk of 48
  bytes that does not start with \<open>MSG_MAGIC\<close> changes nothing, and the bytes behind it
  are read as if it had not been there; a \<open>read\<close> that returns another number of
  bytes than 48 changes nothing. The reader does not look for the next boundary: bytes
  that are no whole chunk are read together with the bytes behind them.
\<close>

theorem vehicle_update_roundtrip:
  "(int32 (id_v v) \<and> int32 (queueIndex v) \<and> (\<forall>c \<in> set cs. length c = 48) \<and> length tail < 48 \<longrightarrow>
      map_option VehicleState_of
        (vehicles (drain side (concat cs @ stream pads (sendUpdate parked v L []) @ tail) V)
           (id_v v)) =
      Some (Some \<lparr> id_s = id_v v, x_s = x_v v, y_s = y_v v,
               colorR = fst (getColor (type_v v)),
               colorG = fst (snd (getColor (type_v v))),
               colorB = snd (snd (getColor (type_v v))),
               isActive = active v, isParked = parked,
               isInQueue_s = isInQueue v, queueIndex_s = queueIndex v,
               isLeftParking_s = isLeftParking v, type_s = type_v v \<rparr>)) \<and>
   ((\<forall>c \<in> set cs. length c = 48) \<longrightarrow>
      drain side (concat cs @ rest) V =
        drain side rest (foldl (\<lambda>W c. on_read side c W) V cs)) \<and>
   (length c = 48 \<and> field32 0 c \<noteq> MSG_MAGIC \<longrightarrow>
      on_read side c V = V \<and> drain side (c @ rest) V = drain side rest V) \<and>
   (length buf \<noteq> 48 \<longrightarrow> on_read side buf V = V) \<and>
   (length tail < 48 \<longrightarrow> drain side tail V = V)"
proof -
  let ?s = "\<lparr> id_s = id_v v, x_s = x_v v, y_s = y_v v,
               colorR = fst (getColor (type_v v)),
               colorG = fst (snd (getColor (type_v v))),
               colorB = snd (snd (getColor (type_v v))),
               isActive = active v, isParked = parked,
               isInQueue_s = isInQueue v, queueIndex_s = queueIndex v,
               isLeftParking_s = isLeftParking v, type_s = type_v v \<rparr>"
  have a: "int32 (id_v v) \<and> int32 (queueIndex v) \<and> (\<forall>c \<in> set cs. length c = 48) \<and>
      length tail < 48 \<longrightarrow>
      map_option VehicleState_of
        (vehicles (drain side (concat cs @ stream pads (sendUpdate parked v L []) @ tail) V)
           (id_v v)) = Some (Some ?s)"
  proof
    assume h: "int32 (id_v v) \<and> int32 (queueIndex v) \<and> (\<forall>c \<in> set cs. length c = 48) \<and>
      length tail < 48"
    define W where "W = foldl (\<lambda>W c. on_read side c W) V cs"
    from h have d: "drain side (concat cs @ stream pads (sendUpdate parked v L []) @ tail) V =
        drain side (stream pads (sendUpdate parked v L []) @ tail) W"
      unfolding W_def by (intro drain_chunks) simp
    from h have dec: "VehicleState_of (VehicleState_bytes (pads 0) ?s) = Some ?s"
      by (intro VehicleState_of_bytes) (simp_all add: getColor_int32)
    from h have t: "\<And>X. drain side tail X = X" by (simp add: drain_short)
    from h have i: "int32 (id_v v)" by simp
    show "map_option VehicleState_of
        (vehicles (drain side (concat cs @ stream pads (sendUpdate parked v L []) @ tail) V)
           (id_v v)) = Some (Some ?s)"
    proof (cases "parkingLot v = Nullptr")
      case True
      then have "sendUpdate parked v L [] = [vehicle_frame parked v]"
        by (simp add: sendUpdate_def Let_def)
      then show ?thesis
        unfolding d
        by (simp add: stream_one drain_chunk t on_read_vehicle_frame [OF i] dec)
    next
      case False
      then have "sendUpdate parked v L [] = [vehicle_frame parked v, parking_frame v L]"
        by (simp add: sendUpdate_def Let_def)
      then show ?thesis
        unfolding d
        by (simp add: stream_two drain_chunk t on_read_parking_frame_vehicles
            on_read_vehicle_frame [OF i] dec)
    qed
  qed
  have b: "(\<forall>c \<in> set cs. length c = 48) \<longrightarrow>
      drain side (concat cs @ rest) V =
        drain side rest (foldl (\<lambda>W c. on_read side c W) V cs)"
    by (simp add: drain_chunks)
  have c: "length c = 48 \<and> field32 0 c \<noteq> MSG_MAGIC \<longrightarrow>
      on_read side c V = V \<and> drain side (c @ rest) V = drain side rest V"
    by (simp add: drain_chunk on_read_magic)
  have d: "length buf \<noteq> 48 \<longrightarrow> on_read side buf V = V"
    by (simp add: on_read_short)
  have e: "length tail < 48 \<longrightarrow> drain side tail V = V"
    by (simp add: drain_short)
  from a b c d e show ?thesis by blast
qed


theorem vehicle_update_roundtrip_witness:
  "map_option VehicleState_of
     (vehicles
        (drain PipeF10
           (concat [le32 0xCAFEBABF @ drop 4 (wire zero_pad (vehicle_frame False second_car))] @
            stream zero_pads (sendUpdate True local_car lot_full []) @
            take 20 (wire zero_pad (vehicle_frame False second_car)))
           Visualizer_init) 0) =
     Some (Some \<lparr> id_s = 0, x_s = x_v local_car, y_s = y_v local_car,
              colorR = 0, colorG = 255, colorB = 0,
              isActive = True, isParked = True, isInQueue_s = False, queueIndex_s = - 1,
              isLeftParking_s = False, type_s = CAR \<rparr>) \<and>
   drain PipeF10
     ((le32 0xCAFEBABF @ drop 4 (wire zero_pad (vehicle_frame False second_car))) @
      wire zero_pad (vehicle_frame True second_car)) Visualizer_init =
   drain PipeF10 (wire zero_pad (vehicle_frame True second_car)) Visualizer_init \<and>
   on_read PipeF10 (take 20 (wire zero_pad (vehicle_frame False second_car))) Visualizer_init =
     Visualizer_init \<and>
   drain PipeF10 (take 20 (wire zero_pad (vehicle_frame False second_car))) Visualizer_init =
     Visualizer_init"
proof -
  let ?bad = "le32 0xCAFEBABF @ drop 4 (wire zero_pad (vehicle_frame False second_car))"
  let ?tail = "take 20 (wire zero_pad (vehicle_frame False second_car))"
  note t = vehicle_update_roundtrip [where v = local_car and parked = True and L = lot_full
      and side = PipeF10 and V = Visualizer_init and pads = zero_pads and cs = "[?bad]"
      and tail = ?tail and c = ?bad
      and rest = "wire zero_pad (vehicle_frame True second_car)" and buf = ?tail]
  have h: "int32 (id_v local_car)" "int32 (queueIndex local_car)"
    "\<forall>c \<in> set [?bad]. length c = 48" "length ?tail < 48" "length ?bad = 48"
    "field32 0 ?bad \<noteq> MSG_MAGIC" "length ?tail \<noteq> 48"
    by (simp_all add: local_car_def int32_def MSG_MAGIC_def)
  have f: "id_v local_car = 0" "type_v local_car = CAR" "active local_car"
    "\<not> isInQueue local_car" "queueIndex local_car = - 1" "\<not> isLeftParking local_car"
    by (simp_all add: local_car_def)
  from t h(1-4) have a: "map_option VehicleState_of
     (vehicles
        (drain PipeF10
           (concat [?bad] @ stream zero_pads (sendUpdate True local_car lot_full []) @ ?tail)
           Visualizer_init) (id_v local_car)) =
     Some (Some \<lparr> id_s = id_v local_car, x_s = x_v local_car, y_s = y_v local_car,
               colorR = fst (getColor (type_v local_car)),
               colorG = fst (snd (getColor (type_v local_car))),
               colorB = snd (snd (getColor (type_v local_car))),
               isActive = active local_car, isParked = True,
               isInQueue_s = isInQueue local_car, queueIndex_s = queueIndex local_car,
               isLeftParking_s = isLeftParking local_car, type_s = type_v local_car \<rparr>)"
    by blast
  from t h(5,6) have b: "drain PipeF10 (?bad @ wire zero_pad (vehicle_frame True second_car))
      Visualizer_init =
    drain PipeF10 (wire zero_pad (vehicle_frame True second_car)) Visualizer_init"
    by blast
  from t h(7) have c: "on_read PipeF10 ?tail Visualizer_init = Visualizer_init" by blast
  from t h(4) have d: "drain PipeF10 ?tail Visualizer_init = Visualizer_init" by blast
  from a b c d show ?thesis by (simp only: f getColor.simps fst_conv snd_conv)
qed


section \<open>Properties of \<open>moveTowards\<close>\<close>

subsection \<open>Exponents, integer square roots and rounding\<close>

declare bits.simps [simp del]
declare isqrt.simps [simp del]

lemma pow2_powi: "pow2 e = 2 powi e"
  by (simp add: pow2_def power_int_def field_simps)

lemma pow2_pos [simp]: "0 < pow2 e"
  by (simp add: pow2_powi zero_less_power_int)

lemma pow2_nonzero [simp]: "pow2 e \<noteq> 0"
  by (metis pow2_pos less_irrefl)

lemma pow2_add: "pow2 (a + b) = pow2 a * pow2 b"
  by (simp add: pow2_powi power_int_add)

lemma pow2_nat: "pow2 (int n) = 2 ^ n"
  by (simp add: pow2_def)

lemma pow2_diff_nat: "pow2 (int m - int n) = 2 ^ m / 2 ^ n"
proof -
  have "pow2 (int m - int n) * pow2 (int n) = pow2 (int m)"
    by (simp add: pow2_add [symmetric])
  then show ?thesis
    by (simp add: pow2_nat field_simps)
qed

lemma pow2_less: "a < b \<Longrightarrow> pow2 a < pow2 b"
  by (simp add: pow2_powi power_int_strict_increasing)

lemma pow2_le: "a \<le> b \<Longrightarrow> pow2 a \<le> pow2 b"
  by (simp add: pow2_powi power_int_increasing)

lemma bits_bounds: "0 < n \<Longrightarrow> 2 ^ (bits n - 1) \<le> n \<and> n < 2 ^ bits n"
proof (induction n rule: bits.induct)
  case (1 n)
  show ?case
  proof (cases "n div 2 = 0")
    case True
    with 1(2) have "n = 1" by arith
    then show ?thesis by (simp add: bits.simps [of "Suc 0"] bits.simps [of 0])
  next
    case False
    from 1(2) have n0: "n \<noteq> 0" by simp
    from False have pos: "0 < n div 2" by simp
    from 1(1) [OF n0 pos]
    have lo: "2 ^ (bits (n div 2) - 1) \<le> n div 2" and hi: "n div 2 < 2 ^ bits (n div 2)"
      by simp_all
    have b: "bits n = Suc (bits (n div 2))" using n0 by (simp add: bits.simps [of n])
    have bpos: "bits (n div 2) \<noteq> 0" using pos by (simp add: bits.simps [of "n div 2"])
    then obtain c where c: "bits (n div 2) = Suc c" by (cases "bits (n div 2)") simp_all
    from lo c have "2 * 2 ^ c \<le> 2 * (n div 2)" by simp
    then have l: "(2::nat) ^ (bits n - 1) \<le> n" by (simp add: b c)
    from hi have "2 * (n div 2) + 2 \<le> 2 * 2 ^ bits (n div 2)" by simp
    then have h: "n < 2 ^ bits n" by (simp add: b)
    from l h show ?thesis ..
  qed
qed

lemma ilog2_bounds:
  assumes "q \<noteq> 0"
  shows "pow2 (ilog2 q) \<le> \<bar>q\<bar> \<and> \<bar>q\<bar> < pow2 (ilog2 q + 1)"
proof -
  obtain a b where ab: "quotient_of \<bar>q\<bar> = (a, b)" by (cases "quotient_of \<bar>q\<bar>")
  then have bpos: "0 < b" by (rule quotient_of_denom_pos)
  from ab have q: "\<bar>q\<bar> = of_int a / of_int b" by (rule quotient_of_div)
  from assms have "0 < \<bar>q\<bar>" by simp
  with q bpos have apos: "0 < a" by (simp add: zero_less_divide_iff)
  define A where "A = nat a"
  define B where "B = nat b"
  have A: "0 < A" "of_int a = (of_nat A :: rat)" using apos by (simp_all add: A_def)
  have B: "0 < B" "of_int b = (of_nat B :: rat)" using bpos by (simp_all add: B_def)
  have qAB: "\<bar>q\<bar> = of_nat A / of_nat B" by (simp add: q A B)
  define e where "e = int (bits A) - int (bits B)"
  from bits_bounds [OF A(1)] have Alo: "(2::rat) ^ (bits A - 1) \<le> of_nat A"
    and Ahi: "(of_nat A :: rat) < 2 ^ bits A"
    by (metis of_nat_le_iff of_nat_numeral of_nat_power, metis of_nat_less_iff of_nat_numeral of_nat_power)
  from bits_bounds [OF B(1)] have Blo: "(2::rat) ^ (bits B - 1) \<le> of_nat B"
    and Bhi: "(of_nat B :: rat) < 2 ^ bits B"
    by (metis of_nat_le_iff of_nat_numeral of_nat_power, metis of_nat_less_iff of_nat_numeral of_nat_power)
  have bA: "bits A \<noteq> 0" using A(1) by (simp add: bits.simps [of A])
  have bB: "bits B \<noteq> 0" using B(1) by (simp add: bits.simps [of B])
  have Bp: "(0::rat) < of_nat B" using B(1) by simp
  have up: "\<bar>q\<bar> < pow2 (e + 1)"
  proof -
    have "pow2 (e + 1) = 2 ^ bits A / 2 ^ (bits B - 1)"
      using bB pow2_diff_nat [of "bits A" "bits B - 1"] by (simp add: e_def of_nat_diff algebra_simps)
    moreover have "of_nat A / of_nat B < (2::rat) ^ bits A / 2 ^ (bits B - 1)"
      using Ahi Blo Bp by (intro frac_less) simp_all
    ultimately show ?thesis by (simp add: qAB)
  qed
  have low: "pow2 (e - 1) \<le> \<bar>q\<bar>"
  proof -
    have "pow2 (e - 1) = 2 ^ (bits A - 1) / 2 ^ bits B"
      using bA pow2_diff_nat [of "bits A - 1" "bits B"] by (simp add: e_def of_nat_diff algebra_simps)
    moreover have "(2::rat) ^ (bits A - 1) / 2 ^ bits B \<le> of_nat A / of_nat B"
      using Alo Bhi Bp by (intro frac_le) simp_all
    ultimately show ?thesis by (simp add: qAB)
  qed
  have il: "ilog2 q = (if pow2 e \<le> \<bar>q\<bar> then e else e - 1)"
    by (simp add: ilog2_def ab e_def A_def B_def Let_def)
  show ?thesis
  proof (cases "pow2 e \<le> \<bar>q\<bar>")
    case True
    then show ?thesis using up by (simp add: il)
  next
    case False
    then show ?thesis using low by (simp add: il)
  qed
qed

lemma ilog2_unique:
  assumes "q \<noteq> 0" and lo: "pow2 e \<le> \<bar>q\<bar>" and hi: "\<bar>q\<bar> < pow2 (e + 1)"
  shows "ilog2 q = e"
proof (rule ccontr)
  assume ne: "ilog2 q \<noteq> e"
  from ilog2_bounds [OF assms(1)]
  have l: "pow2 (ilog2 q) \<le> \<bar>q\<bar>" and h: "\<bar>q\<bar> < pow2 (ilog2 q + 1)" by simp_all
  show False
  proof (cases "ilog2 q < e")
    case True
    then have "pow2 (ilog2 q + 1) \<le> pow2 e" by (intro pow2_le) simp
    with h lo show False by simp
  next
    case False
    with ne have "pow2 (e + 1) \<le> pow2 (ilog2 q)" by (intro pow2_le) simp
    with hi l show False by simp
  qed
qed

lemma isqrt_bounds: "isqrt n * isqrt n \<le> n \<and> n < (isqrt n + 1) * (isqrt n + 1)"
proof (induction n rule: isqrt.induct)
  case (1 n)
  show ?case
  proof (cases "n = 0")
    case True
    then show ?thesis by (simp add: isqrt.simps [of 0])
  next
    case False
    define s where "s = isqrt (n div 4)"
    define m where "m = n div 4"
    from 1 [OF False] have lo: "s * s \<le> m" and hi: "m < (s + 1) * (s + 1)"
      by (simp_all add: s_def m_def)
    have n: "4 * m \<le> n" "n < 4 * m + 4" unfolding m_def by arith+
    have a: "(2 * s) * (2 * s) \<le> n"
    proof -
      have "(2 * s) * (2 * s) = 4 * (s * s)" by simp
      also have "\<dots> \<le> 4 * m" using lo by simp
      finally show ?thesis using n by simp
    qed
    have b: "n < (2 * s + 2) * (2 * s + 2)"
    proof -
      have "m + 1 \<le> (s + 1) * (s + 1)" using hi by simp
      then have "4 * (m + 1) \<le> 4 * ((s + 1) * (s + 1))" by simp
      also have "\<dots> = (2 * s + 2) * (2 * s + 2)" by (simp add: algebra_simps)
      finally show ?thesis using n by simp
    qed
    have r: "isqrt n = (if (2 * s + 1) * (2 * s + 1) \<le> n then 2 * s + 1 else 2 * s)"
      using False by (simp add: isqrt.simps [of n] s_def Let_def)
    show ?thesis
    proof (cases "(2 * s + 1) * (2 * s + 1) \<le> n")
      case True
      then have "isqrt n = 2 * s + 1" by (simp add: r)
      moreover have "2 * s + 1 + 1 = 2 * s + 2" by simp
      ultimately show ?thesis using True b by simp
    next
      case False
      then have "isqrt n = 2 * s" by (simp add: r)
      then show ?thesis using False a by simp
    qed
  qed
qed

lemma isqrt_unique:
  assumes lo: "r * r \<le> n" and hi: "n < (r + 1) * (r + 1)"
  shows "isqrt n = r"
proof (rule ccontr)
  assume ne: "isqrt n \<noteq> r"
  from isqrt_bounds [of n]
  have l: "isqrt n * isqrt n \<le> n" and h: "n < (isqrt n + 1) * (isqrt n + 1)" by simp_all
  show False
  proof (cases "isqrt n < r")
    case True
    then have "isqrt n + 1 \<le> r" by simp
    from this this have "(isqrt n + 1) * (isqrt n + 1) \<le> r * r" by (rule mult_le_mono)
    with h lo show False by simp
  next
    case False
    with ne have "r + 1 \<le> isqrt n" by simp
    from this this have "(r + 1) * (r + 1) \<le> isqrt n * isqrt n" by (rule mult_le_mono)
    with hi l show False by simp
  qed
qed

lemma isqrt_square: "isqrt (m * m) = m"
  by (rule isqrt_unique) simp_all

text \<open>
  Rounding leaves an integer where it is and moves no number by more than a half, so
  the rounded result of an operation is within half a spacing of the exact one.
\<close>

lemma round_even_int: "round_even (of_int k) = k"
  by (simp add: round_even_def)

lemma round_even_error: "\<bar>of_int (round_even y) - y\<bar> \<le> 1 / 2"
proof -
  have "of_int \<lfloor>y\<rfloor> \<le> y" "y < of_int \<lfloor>y\<rfloor> + 1" by linarith+
  then show ?thesis
    by (auto simp add: round_even_def Let_def abs_le_iff)
qed

lemma ulp_pos [simp]: "0 < ulp q"
  by (simp add: ulp_def)

lemma rne_error: "\<bar>rne q - q\<bar> \<le> ulp q / 2"
proof (cases "q = 0")
  case True
  then show ?thesis by (simp add: rne_def less_imp_le)
next
  case False
  have u: "ulp q \<noteq> 0" using ulp_pos [of q] by (metis less_irrefl)
  have "rne q - q = (of_int (round_even (q / ulp q)) - q / ulp q) * ulp q"
    using False u by (simp add: rne_def left_diff_distrib)
  then have "\<bar>rne q - q\<bar> = \<bar>of_int (round_even (q / ulp q)) - q / ulp q\<bar> * ulp q"
    by (simp add: abs_mult less_imp_le)
  also have "\<dots> \<le> 1 / 2 * ulp q"
    by (intro mult_right_mono round_even_error) (simp add: less_imp_le)
  finally show ?thesis by simp
qed

subsection \<open>Operations that do not round\<close>

lemma rne_zero [simp]: "rne 0 = 0"
  by (simp add: rne_def)

lemma fl_exact: "representable q \<Longrightarrow> q \<noteq> 0 \<Longrightarrow> fl s q = Finite q"
  by (simp add: fl_def representable_def Let_def not_le [symmetric])

lemma fl_zero: "fl s 0 = (if s then MinusZero else Finite 0)"
proof -
  have "\<not> pow2 128 \<le> 0" using pow2_pos [of 128] by (simp only: not_le)
  then show ?thesis by (simp add: fl_def Let_def)
qed

lemma fl_num: "representable q \<Longrightarrow> is_num (fl s q) \<and> val (fl s q) = q"
  by (cases "q = 0") (simp_all add: fl_exact fl_zero)

lemma fadd_exact: "representable (a + b) \<Longrightarrow> fadd (Finite a) (Finite b) = Finite (a + b)"
  by (simp add: fadd_def is_inf_def fl_exact)

lemma fadd_num:
  "is_num p \<Longrightarrow> representable (x + val p) \<Longrightarrow> fadd (Finite x) p = Finite (x + val p)"
  by (cases p) (simp_all add: fadd_def is_inf_def fl_exact)

lemma fsub_exact: "representable (a - b) \<Longrightarrow> fsub (Finite a) (Finite b) = Finite (a - b)"
proof (cases "b = 0")
  case True
  assume "representable (a - b)"
  with True show ?thesis using fadd_num [of MinusZero a] by (simp add: fsub_def)
next
  case False
  assume "representable (a - b)"
  with False show ?thesis using fadd_exact [of a "- b"] by (simp add: fsub_def)
qed

lemma fmul_square: "representable (a * a) \<Longrightarrow> fmul (Finite a) (Finite a) = Finite (a * a)"
  by (cases "a = 0") (simp_all add: fmul_def is_inf_def fl_exact fl_zero)

lemma fmul_num:
  "representable (a * b) \<Longrightarrow>
   is_num (fmul (Finite a) (Finite b)) \<and> val (fmul (Finite a) (Finite b)) = a * b"
  by (simp add: fmul_def is_inf_def fl_num)

lemma fdiv_exact:
  "representable (s / d) \<Longrightarrow> 0 < d \<Longrightarrow> fdiv (Finite s) (Finite d) = Finite (s / d)"
  by (cases "s = 0") (simp_all add: fdiv_def is_inf_def fl_exact fl_zero not_less [symmetric])

text \<open>
  The square root of the square of a binary32 number \<open>d > 0\<close> is \<open>d\<close> again: \<open>d\<close> is
  a multiple of the spacing in its binade, and the square lies two binades up.
\<close>

lemma representable_grid:
  assumes r: "representable d" and d: "d \<noteq> 0"
  shows "\<exists>m. d = of_int m * pow2 (ilog2 d - 23)"
proof -
  define k where "k = round_even (d / ulp d)"
  define j where "j = nat (max (ilog2 d) (- 126) - ilog2 d)"
  from r d have "d = of_int k * ulp d"
    by (simp add: representable_def rne_def k_def)
  moreover have "ulp d = pow2 (int j) * pow2 (ilog2 d - 23)"
    by (simp add: ulp_def j_def pow2_add [symmetric])
  ultimately have "d = of_int (k * 2 ^ j) * pow2 (ilog2 d - 23)"
    by (simp add: pow2_nat)
  then show ?thesis ..
qed

lemma ilog2_square:
  assumes d: "d \<noteq> 0"
  shows "ilog2 (d * d) div 2 = ilog2 d"
proof -
  from ilog2_bounds [OF d]
  have l: "pow2 (ilog2 d) \<le> \<bar>d\<bar>" and h: "\<bar>d\<bar> < pow2 (ilog2 d + 1)" by simp_all
  from d have dd: "d * d \<noteq> 0" by simp
  from ilog2_bounds [OF dd]
  have L: "pow2 (ilog2 (d * d)) \<le> \<bar>d * d\<bar>" and H: "\<bar>d * d\<bar> < pow2 (ilog2 (d * d) + 1)"
    by simp_all
  have "pow2 (ilog2 d) * pow2 (ilog2 d) \<le> \<bar>d\<bar> * \<bar>d\<bar>"
    using l by (intro mult_mono) (simp_all add: less_imp_le)
  then have a: "pow2 (2 * ilog2 d) \<le> \<bar>d * d\<bar>"
    using pow2_add [of "ilog2 d" "ilog2 d"] by (simp add: abs_mult)
  have "\<bar>d\<bar> * \<bar>d\<bar> < pow2 (ilog2 d + 1) * pow2 (ilog2 d + 1)"
    using h by (intro mult_strict_mono) simp_all
  then have b: "\<bar>d * d\<bar> < pow2 (2 * ilog2 d + 2)"
    using pow2_add [of "ilog2 d + 1" "ilog2 d + 1"] by (simp add: abs_mult algebra_simps)
  have "2 * ilog2 d \<le> ilog2 (d * d)"
  proof (rule ccontr)
    assume "\<not> 2 * ilog2 d \<le> ilog2 (d * d)"
    then have "pow2 (ilog2 (d * d) + 1) \<le> pow2 (2 * ilog2 d)" by (intro pow2_le) simp
    with H a show False by simp
  qed
  moreover have "ilog2 (d * d) < 2 * ilog2 d + 2"
  proof (rule ccontr)
    assume "\<not> ilog2 (d * d) < 2 * ilog2 d + 2"
    then have "pow2 (2 * ilog2 d + 2) \<le> pow2 (ilog2 (d * d))" by (intro pow2_le) simp
    with L b show False by simp
  qed
  ultimately show ?thesis by arith
qed

lemma sqrt_exact:
  assumes d: "0 < d" and r: "representable d"
  shows "sqrt_rne (d * d) = d"
proof -
  from d have d0: "d \<noteq> 0" by simp
  define u where "u = pow2 (ilog2 d - 23)"
  from representable_grid [OF r d0] obtain m where m: "d = of_int m * u"
    by (auto simp add: u_def)
  have upos: "0 < u" by (simp add: u_def)
  from d m upos have mpos: "0 < m" by (simp add: zero_less_mult_iff)
  have y: "d * d / (u * u) = of_int (m * m)"
    using upos by (simp add: m)
  have fl: "nat \<lfloor>(of_int (m * m) :: rat)\<rfloor> = nat m * nat m"
    using mpos by (simp only: floor_of_int) (simp add: nat_mult_distrib)
  have n: "int (isqrt (nat m * nat m)) = m"
    using mpos by (simp add: isqrt_square)
  have lt: "(of_int (m * m) :: rat) < (of_int m + 1 / 2) * (of_int m + 1 / 2)"
    using mpos by (simp add: algebra_simps)
  show ?thesis
    unfolding sqrt_rne_def ilog2_square [OF d0] u_def [symmetric] Let_def y fl n
    using lt by (simp add: m)
qed

lemma fsqrt_exact:
  assumes "0 \<le> d" and "representable d"
  shows "fsqrt (Finite (d * d)) = Finite d"
proof (cases "d = 0")
  case True
  then show ?thesis by simp
next
  case False
  with assms have d: "0 < d" by simp
  then have "0 < d * d" by simp
  then show ?thesis using sqrt_exact [OF d assms(2)] by (simp add: not_less [symmetric])
qed

lemma dist_of_exact:
  assumes "exact_distance x y tx ty d"
  shows "dist_of (Finite x) (Finite y) (Finite tx) (Finite ty) = Finite d"
proof -
  from assms have d: "0 \<le> d" and dd: "d * d = (tx - x) * (tx - x) + (ty - y) * (ty - y)"
    and r: "representable (tx - x)" "representable (ty - y)"
      "representable ((tx - x) * (tx - x))" "representable ((ty - y) * (ty - y))"
      "representable (d * d)" "representable d"
    unfolding exact_distance_def by auto
  have "fadd (Finite ((tx - x) * (tx - x))) (Finite ((ty - y) * (ty - y))) = Finite (d * d)"
    using r(5) unfolding dd by (rule fadd_exact)
  moreover have "fsqrt (Finite (d * d)) = Finite d"
    using d r(6) by (rule fsqrt_exact)
  ultimately show ?thesis
    by (simp only: dist_of_def fsub_exact r fmul_square)
qed

lemma moveTowards_dist:
  "moveTowards cX cY tX tY spd =
     (if flt (dist_of cX cY tX tY) spd then (True, tX, tY)
      else (False,
            fadd cX (fmul (fsub tX cX) (fdiv spd (dist_of cX cY tX tY))),
            fadd cY (fmul (fsub tY cY) (fdiv spd (dist_of cX cY tX tY)))))"
  by (simp add: moveTowards_def dist_of_def Let_def)

lemma moveTowards_exact_step:
  assumes e: "exact_distance x y tx ty d" and s: "exact_step x y tx ty s d" and n: "\<not> d < s"
  shows "moveTowards (Finite x) (Finite y) (Finite tx) (Finite ty) (Finite s) =
           (False, Finite (x + (tx - x) * (s / d)), Finite (y + (ty - y) * (s / d)))"
proof -
  from e have r: "representable (tx - x)" "representable (ty - y)"
    by (simp_all add: exact_distance_def)
  from s have d: "0 < d" and q: "representable (s / d)"
    "representable ((tx - x) * (s / d))" "representable ((ty - y) * (s / d))"
    "representable (x + (tx - x) * (s / d))" "representable (y + (ty - y) * (s / d))"
    by (simp_all add: exact_step_def)
  have a: "fadd (Finite x) (fmul (Finite (tx - x)) (Finite (s / d))) =
      Finite (x + (tx - x) * (s / d))"
    using fmul_num [OF q(2)] q(4) by (simp add: fadd_num)
  have b: "fadd (Finite y) (fmul (Finite (ty - y)) (Finite (s / d))) =
      Finite (y + (ty - y) * (s / d))"
    using fmul_num [OF q(3)] q(5) by (simp add: fadd_num)
  show ?thesis
    using n by (simp add: moveTowards_dist dist_of_exact [OF e] flt_def fsub_exact r
        fdiv_exact q d a b)
qed

lemma exact_step_length:
  assumes "0 < d" and "d * d = dx * dx + dy * dy"
  shows "(dx * (s / d)) * (dx * (s / d)) + (dy * (s / d)) * (dy * (s / d)) = s * (s::rat)"
proof -
  define r where "r = s / d"
  have "(dx * r) * (dx * r) + (dy * r) * (dy * r) = (dx * dx + dy * dy) * (r * r)"
    by (simp add: algebra_simps)
  then have "(dx * (s / d)) * (dx * (s / d)) + (dy * (s / d)) * (dy * (s / d)) =
      (dx * dx + dy * dy) * ((s / d) * (s / d))"
    by (simp only: r_def)
  also have "\<dots> = (d * d) * ((s / d) * (s / d))" by (simp only: assms(2))
  also have "\<dots> = s * s" using assms(1) by simp
  finally show ?thesis .
qed

subsection \<open>Evaluation at given numbers\<close>

text \<open>
  With the binade of \<open>q\<close> given, rounding is a division and a floor: this is how the
  examples below are computed.
\<close>

lemma rne_at:
  assumes "q \<noteq> 0" and "pow2 e \<le> \<bar>q\<bar>" and "\<bar>q\<bar> < pow2 (e + 1)"
  shows "rne q = of_int (round_even (q / pow2 (max e (- 126) - 23))) * pow2 (max e (- 126) - 23)"
  using assms by (simp add: rne_def ulp_def ilog2_unique [of q e])

lemma representable_at:
  assumes "q \<noteq> 0" and "pow2 e \<le> \<bar>q\<bar>" and "\<bar>q\<bar> < pow2 (e + 1)" and "e < 128"
    and "q / pow2 (max e (- 126) - 23) \<in> \<int>"
  shows "representable q"
proof -
  from assms(5) obtain k where k: "q / pow2 (max e (- 126) - 23) = of_int k"
    by (auto elim: Ints_cases)
  then have "q = of_int k * pow2 (max e (- 126) - 23)"
    by (simp add: field_simps)
  then have "rne q = q"
    using rne_at [OF assms(1-3)] k by (simp add: round_even_int)
  moreover have "pow2 (e + 1) \<le> pow2 128" using assms(4) by (intro pow2_le) simp
  ultimately show ?thesis using assms(3) by (simp add: representable_def)
qed

lemma representable_zero: "representable 0"
  by (simp add: representable_def)

lemma fl_at:
  assumes "q \<noteq> 0" and "pow2 e \<le> \<bar>q\<bar>" and "\<bar>q\<bar> < pow2 (e + 1)"
    and "of_int (round_even (q / pow2 (max e (- 126) - 23))) * pow2 (max e (- 126) - 23) = r"
    and "r \<noteq> 0" and "\<bar>r\<bar> < pow2 128"
  shows "fl s q = Finite r"
  using assms(5,6) rne_at [OF assms(1-3)]
  by (simp add: fl_def Let_def assms(4) not_le [symmetric])

lemma floor_rat_numeral:
  "\<lfloor>numeral a / numeral b :: rat\<rfloor> = numeral a div numeral b"
  using floor_divide_of_int_eq [of "numeral a" "numeral b", where ?'a = rat] by simp

lemma floor_rat_neg_numeral:
  "\<lfloor>- (numeral a / numeral b) :: rat\<rfloor> = - numeral a div numeral b"
  using floor_divide_of_int_eq [of "- numeral a" "numeral b", where ?'a = rat] by simp

lemmas float_eval = pow2_def round_even_def Let_def floor_rat_numeral floor_rat_neg_numeral

lemma slanted_distance: "exact_distance 240 400 300 320 100"
proof -
  have "representable (300 - 240)"
    by (rule representable_at [where e = 5]) (simp_all add: float_eval)
  moreover have "representable (320 - 400)"
    by (rule representable_at [where e = 6]) (simp_all add: float_eval)
  moreover have "representable ((300 - 240) * (300 - 240))"
    by (rule representable_at [where e = 11]) (simp_all add: float_eval)
  moreover have "representable ((320 - 400) * (320 - 400))"
    by (rule representable_at [where e = 12]) (simp_all add: float_eval)
  moreover have "representable (100 * 100)"
    by (rule representable_at [where e = 13]) (simp_all add: float_eval)
  moreover have "representable 100"
    by (rule representable_at [where e = 6]) (simp_all add: float_eval)
  ultimately show ?thesis by (simp add: exact_distance_def)
qed

lemma slanted_step:
  "moveTowards (Finite 240) (Finite 400) (Finite 300) (Finite 320) (Finite 2) =
     (False, Finite (15807283 / 65536), Finite (13054771 / 32768))"
proof -
  have dist: "dist_of (Finite 240) (Finite 400) (Finite 300) (Finite 320) = Finite 100"
    using slanted_distance by (rule dist_of_exact)
  have dx: "fsub (Finite 300) (Finite 240) = Finite 60"
    using fsub_exact [of 300 240] slanted_distance by (simp add: exact_distance_def)
  have dy: "fsub (Finite 320) (Finite 400) = Finite (- 80)"
    using fsub_exact [of 320 400] slanted_distance by (simp add: exact_distance_def)
  have "fl False (2 / 100) = Finite (5368709 / 268435456)"
    by (rule fl_at [where e = "- 6"]) (simp_all add: float_eval)
  then have ratio: "fdiv (Finite 2) (Finite 100) = Finite (5368709 / 268435456)"
    by (simp add: fdiv_def is_inf_def)
  have "fl False (60 * (5368709 / 268435456)) = Finite (10066329 / 8388608)"
    by (rule fl_at [where e = 0]) (simp_all add: float_eval)
  then have px: "fmul (Finite 60) (Finite (5368709 / 268435456)) = Finite (10066329 / 8388608)"
    by (simp add: fmul_def is_inf_def)
  have "fl True (- 80 * (5368709 / 268435456)) = Finite (- (3355443 / 2097152))"
    by (rule fl_at [where e = 0]) (simp_all add: float_eval)
  then have py: "fmul (Finite (- 80)) (Finite (5368709 / 268435456)) =
      Finite (- (3355443 / 2097152))"
    by (simp add: fmul_def is_inf_def)
  have "fl False (240 + 10066329 / 8388608) = Finite (15807283 / 65536)"
    by (rule fl_at [where e = 7]) (simp_all add: float_eval)
  then have nx: "fadd (Finite 240) (Finite (10066329 / 8388608)) = Finite (15807283 / 65536)"
    by (simp add: fadd_def is_inf_def)
  have "fl False (400 + - (3355443 / 2097152)) = Finite (13054771 / 32768)"
    by (rule fl_at [where e = 8]) (simp_all add: float_eval)
  then have ny: "fadd (Finite 400) (Finite (- (3355443 / 2097152))) = Finite (13054771 / 32768)"
    by (simp add: fadd_def is_inf_def)
  show ?thesis
    by (simp only: moveTowards_dist dist dx dy ratio px py nx ny) (simp add: flt_def)
qed

lemma nan_step:
  "moveTowards (Finite 0) (Finite 0) (Finite 0) (Finite 0) (Finite 0) = (False, NaN, NaN)"
proof -
  have "dist_of (Finite 0) (Finite 0) (Finite 0) (Finite 0) = Finite 0"
    by (rule dist_of_exact [of 0 0 0 0 0, simplified])
       (simp add: exact_distance_def representable_zero)
  then show ?thesis
    by (simp add: moveTowards_dist flt_def fdiv_def is_inf_def fmul_def fadd_def)
qed


lemma exact_distance_example: "exact_distance 240 400 288 464 80"
proof -
  have "representable (288 - 240)"
    by (rule representable_at [where e = 5]) (simp_all add: float_eval)
  moreover have "representable (464 - 400)"
    by (rule representable_at [where e = 6]) (simp_all add: float_eval)
  moreover have "representable ((288 - 240) * (288 - 240))"
    by (rule representable_at [where e = 11]) (simp_all add: float_eval)
  moreover have "representable ((464 - 400) * (464 - 400))"
    by (rule representable_at [where e = 12]) (simp_all add: float_eval)
  moreover have "representable (80 * 80)"
    by (rule representable_at [where e = 12]) (simp_all add: float_eval)
  moreover have "representable 80"
    by (rule representable_at [where e = 6]) (simp_all add: float_eval)
  ultimately show ?thesis by (simp add: exact_distance_def)
qed

lemma exact_step_example: "exact_step 240 400 288 464 (5 / 2) 80"
proof -
  have "representable (5 / 2 / 80)"
    by (rule representable_at [where e = "- 5"]) (simp_all add: float_eval)
  moreover have "representable ((288 - 240) * (5 / 2 / 80))"
    by (rule representable_at [where e = 0]) (simp_all add: float_eval)
  moreover have "representable ((464 - 400) * (5 / 2 / 80))"
    by (rule representable_at [where e = 1]) (simp_all add: float_eval)
  moreover have "representable (240 + (288 - 240) * (5 / 2 / 80))"
    by (rule representable_at [where e = 7]) (simp_all add: float_eval)
  moreover have "representable (400 + (464 - 400) * (5 / 2 / 80))"
    by (rule representable_at [where e = 8]) (simp_all add: float_eval)
  ultimately show ?thesis by (simp add: exact_step_def)
qed


subsection \<open>C8: what one call of \<open>moveTowards\<close> does\<close>

text \<open>
  C8 as stated fails: from \<open>(240, 400)\<close> towards \<open>(300, 320)\<close> at speed 2 the distance
  is 100, exactly; \<open>speed / dist\<close> is 0.02, which is no binary32 number and becomes
  \<open>5368709 / 2 ^ 28\<close>; its products with \<open>dx = 60\<close> and \<open>dy = -80\<close> are rounded again
  (the second one lies halfway between two binary32 numbers), and so are the two sums.
  The position reached, \<open>(15807283 / 65536, 13054771 / 32768)\<close>, is not on the straight
  line from \<open>(240, 400)\<close> to \<open>(300, 320)\<close>, and the square of its distance from
  \<open>(240, 400)\<close> is not 4. And for a vehicle that stands on its target with speed 0,
  \<open>dist < speed\<close> is false, \<open>speed / dist\<close> is \<open>0 / 0\<close>, and the position becomes NaN.
\<close>

theorem moveTowards_step_counterexample:
  "moveTowards (Finite 240) (Finite 400) (Finite 300) (Finite 320) (Finite 2) =
     (False, Finite (15807283 / 65536), Finite (13054771 / 32768)) \<and>
   (15807283 / 65536 - 240) * (15807283 / 65536 - 240) +
   (13054771 / 32768 - 400) * (13054771 / 32768 - 400) \<noteq> (2 * 2 :: rat) \<and>
   (15807283 / 65536 - 240) * (320 - 400) \<noteq> (13054771 / 32768 - 400) * (300 - 240 :: rat) \<and>
   moveTowards (Finite 0) (Finite 0) (Finite 0) (Finite 0) (Finite 0) = (False, NaN, NaN)"
  by (simp add: slanted_step nan_step)


text \<open>
  C8, amended: \<open>moveTowards\<close> computes \<open>dx\<close>, \<open>dy\<close> and
  \<open>dist = sqrt(dx * dx + dy * dy)\<close> in binary32, every operation rounded to the nearest
  binary32 number. If the \<open>dist\<close> so computed is less than \<open>speed\<close>, the position is
  set to the target and the result is \<open>true\<close>. Otherwise the result is \<open>false\<close> and
  each coordinate becomes the rounded sum of itself and the rounded product of \<open>dx\<close>,
  respectively \<open>dy\<close>, with the rounded quotient \<open>speed / dist\<close>. Where no operation of
  the call rounds, \<open>dist\<close> is the straight-line distance \<open>d\<close>, the branch taken is the
  one for \<open>d < speed\<close>, and the step of the second branch is exactly \<open>speed\<close> units long
  on the straight line towards the target: the new position is
  \<open>(x + (tx - x) * (speed / d), y + (ty - y) * (speed / d))\<close>.
\<close>

theorem moveTowards_step:
  "(flt (dist_of cX cY tX tY) spd \<longrightarrow> moveTowards cX cY tX tY spd = (True, tX, tY)) \<and>
   (\<not> flt (dist_of cX cY tX tY) spd \<longrightarrow>
      moveTowards cX cY tX tY spd =
        (False,
         fadd cX (fmul (fsub tX cX) (fdiv spd (dist_of cX cY tX tY))),
         fadd cY (fmul (fsub tY cY) (fdiv spd (dist_of cX cY tX tY))))) \<and>
   (exact_distance x y tx ty d \<longrightarrow>
      dist_of (Finite x) (Finite y) (Finite tx) (Finite ty) = Finite d) \<and>
   (exact_distance x y tx ty d \<and> d < s \<longrightarrow>
      moveTowards (Finite x) (Finite y) (Finite tx) (Finite ty) (Finite s) =
        (True, Finite tx, Finite ty)) \<and>
   (exact_distance x y tx ty d \<and> exact_step x y tx ty s d \<and> s \<le> d \<longrightarrow>
      moveTowards (Finite x) (Finite y) (Finite tx) (Finite ty) (Finite s) =
        (False, Finite (x + (tx - x) * (s / d)), Finite (y + (ty - y) * (s / d))) \<and>
      ((tx - x) * (s / d)) * ((tx - x) * (s / d)) +
      ((ty - y) * (s / d)) * ((ty - y) * (s / d)) = s * s)"
proof -
  have a: "flt (dist_of cX cY tX tY) spd \<longrightarrow> moveTowards cX cY tX tY spd = (True, tX, tY)"
    by (simp add: moveTowards_dist)
  have b: "\<not> flt (dist_of cX cY tX tY) spd \<longrightarrow>
      moveTowards cX cY tX tY spd =
        (False,
         fadd cX (fmul (fsub tX cX) (fdiv spd (dist_of cX cY tX tY))),
         fadd cY (fmul (fsub tY cY) (fdiv spd (dist_of cX cY tX tY))))"
    by (simp add: moveTowards_dist)
  have c: "exact_distance x y tx ty d \<longrightarrow>
      dist_of (Finite x) (Finite y) (Finite tx) (Finite ty) = Finite d"
    by (simp add: dist_of_exact)
  have d: "exact_distance x y tx ty d \<and> d < s \<longrightarrow>
      moveTowards (Finite x) (Finite y) (Finite tx) (Finite ty) (Finite s) =
        (True, Finite tx, Finite ty)"
  proof
    assume h: "exact_distance x y tx ty d \<and> d < s"
    then have "dist_of (Finite x) (Finite y) (Finite tx) (Finite ty) = Finite d"
      by (simp add: dist_of_exact)
    with h show "moveTowards (Finite x) (Finite y) (Finite tx) (Finite ty) (Finite s) =
        (True, Finite tx, Finite ty)"
      by (simp add: moveTowards_dist flt_def)
  qed
  have e: "exact_distance x y tx ty d \<and> exact_step x y tx ty s d \<and> s \<le> d \<longrightarrow>
      moveTowards (Finite x) (Finite y) (Finite tx) (Finite ty) (Finite s) =
        (False, Finite (x + (tx - x) * (s / d)), Finite (y + (ty - y) * (s / d))) \<and>
      ((tx - x) * (s / d)) * ((tx - x) * (s / d)) +
      ((ty - y) * (s / d)) * ((ty - y) * (s / d)) = s * s"
  proof
    assume h: "exact_distance x y tx ty d \<and> exact_step x y tx ty s d \<and> s \<le> d"
    then have "moveTowards (Finite x) (Finite y) (Finite tx) (Finite ty) (Finite s) =
        (False, Finite (x + (tx - x) * (s / d)), Finite (y + (ty - y) * (s / d)))"
      by (intro moveTowards_exact_step) simp_all
    moreover from h have "0 < d" "d * d = (tx - x) * (tx - x) + (ty - y) * (ty - y)"
      by (simp_all add: exact_step_def exact_distance_def)
    then have "((tx - x) * (s / d)) * ((tx - x) * (s / d)) +
      ((ty - y) * (s / d)) * ((ty - y) * (s / d)) = s * s"
      by (rule exact_step_length)
    ultimately show "moveTowards (Finite x) (Finite y) (Finite tx) (Finite ty) (Finite s) =
        (False, Finite (x + (tx - x) * (s / d)), Finite (y + (ty - y) * (s / d))) \<and>
      ((tx - x) * (s / d)) * ((tx - x) * (s / d)) +
      ((ty - y) * (s / d)) * ((ty - y) * (s / d)) = s * s" ..
  qed
  from a b c d e show ?thesis by blast
qed


theorem moveTowards_step_witness:
  "exact_distance 240 400 288 464 80 \<and> exact_step 240 400 288 464 (5 / 2) 80 \<and>
   dist_of (Finite 240) (Finite 400) (Finite 288) (Finite 464) = Finite 80 \<and>
   moveTowards (Finite 240) (Finite 400) (Finite 288) (Finite 464) (Finite (5 / 2)) =
     (False, Finite (483 / 2), Finite 402) \<and>
   moveTowards (Finite 240) (Finite 400) (Finite 288) (Finite 464) (Finite 81) =
     (True, Finite 288, Finite 464) \<and>
   moveTowards (Finite 240) (Finite 400) (Finite 300) (Finite 320) PlusInfinity =
     (True, Finite 300, Finite 320) \<and>
   moveTowards (Finite 240) (Finite 400) (Finite 300) (Finite 320) NaN = (False, NaN, NaN)"
proof -
  note step = moveTowards_step [where x = 240 and y = 400 and tx = 288 and ty = 464
      and d = 80 and s = "5 / 2" and cX = "Finite 240" and cY = "Finite 400"
      and tX = "Finite 300" and tY = "Finite 320" and spd = NaN]
  note snap = moveTowards_step [where x = 240 and y = 400 and tx = 288 and ty = 464
      and d = 80 and s = 81 and cX = "Finite 240" and cY = "Finite 400"
      and tX = "Finite 300" and tY = "Finite 320" and spd = PlusInfinity]
  have dist: "dist_of (Finite 240) (Finite 400) (Finite 300) (Finite 320) = Finite 100"
    using slanted_distance by (rule dist_of_exact)
  have a: "dist_of (Finite 240) (Finite 400) (Finite 288) (Finite 464) = Finite 80"
    using step exact_distance_example by blast
  have b: "moveTowards (Finite 240) (Finite 400) (Finite 288) (Finite 464) (Finite (5 / 2)) =
     (False, Finite (483 / 2), Finite 402)"
    using step exact_distance_example exact_step_example by simp
  have c: "moveTowards (Finite 240) (Finite 400) (Finite 288) (Finite 464) (Finite 81) =
     (True, Finite 288, Finite 464)"
    using snap exact_distance_example by simp
  have d: "moveTowards (Finite 240) (Finite 400) (Finite 300) (Finite 320) PlusInfinity =
     (True, Finite 300, Finite 320)"
    using snap by (simp add: dist flt_def)
  have e: "moveTowards (Finite 240) (Finite 400) (Finite 300) (Finite 320) NaN = (False, NaN, NaN)"
    using step by (simp add: dist flt_def fdiv_def fmul_def fadd_def)
  from exact_distance_example exact_step_example a b c d e show ?thesis by blast
qed

end
